theory Spec2Isabelle
  imports Main "HOL-Library.Sublist" "HOL-Library.Multiset"
begin

section \<open>Strings\<close>

text \<open>
  A JavaScript string is modelled as a \<^typ>\<open>string\<close> whose characters are its code units.
  The embedding represents the ASCII texts, those whose code units are below \<open>0x80\<close>: on them
  the case conversions and \<open>trim\<close> below are \<open>toUpperCase\<close>, \<open>toLowerCase\<close> and \<open>trim\<close> of
  the language. On other texts the built-in functions also convert the letters and strip the
  white space that lie outside ASCII, which the functions below do not; every property
  that applies them to an arbitrary text is therefore stated for ASCII texts.
\<close>

definition isAscii :: "string \<Rightarrow> bool" where
  "isAscii s = list_all (\<lambda>c. \<not> digit7 c) s"

definition lowerLetters :: string where
  "lowerLetters = ''abcdefghijklmnopqrstuvwxyz''"

definition upperLetters :: string where
  "upperLetters = ''ABCDEFGHIJKLMNOPQRSTUVWXYZ''"

definition digits :: string where
  "digits = ''0123456789''"

definition toUpperChar :: "char \<Rightarrow> char" where
  "toUpperChar c = (case map_of (zip lowerLetters upperLetters) c of Some u \<Rightarrow> u | None \<Rightarrow> c)"

definition toLowerChar :: "char \<Rightarrow> char" where
  "toLowerChar c = (case map_of (zip upperLetters lowerLetters) c of Some l \<Rightarrow> l | None \<Rightarrow> c)"

definition toUpperCase :: "string \<Rightarrow> string" where
  "toUpperCase s = map toUpperChar s"

definition toLowerCase :: "string \<Rightarrow> string" where
  "toLowerCase s = map toLowerChar s"

text \<open>\<^verbatim>\<open>str.charAt(0).toUpperCase() + str.slice(1)\<close>\<close>

fun capitalize :: "string \<Rightarrow> string" where
  "capitalize [] = []"
| "capitalize (c # cs) = toUpperChar c # cs"

text \<open>\<^verbatim>\<open>str.charAt(0).toLowerCase() + str.slice(1)\<close>\<close>

fun toCamelCase :: "string \<Rightarrow> string" where
  "toCamelCase [] = []"
| "toCamelCase (c # cs) = toLowerChar c # cs"

definition isLowerAlnum :: "char \<Rightarrow> bool" where
  "isLowerAlnum c = (c \<in> set (lowerLetters @ digits))"

definition isUpperAZ :: "char \<Rightarrow> bool" where
  "isUpperAZ c = (c \<in> set upperLetters)"

text \<open>
  \<^verbatim>\<open>str.replace(/([a-z0-9])([A-Z])/g, '$1' + sep + '$2')\<close>: the scan goes left to right and
  resumes after the two characters of a match.
\<close>

fun separateWords :: "char \<Rightarrow> string \<Rightarrow> string" where
  "separateWords sep (a # b # rest) =
     (if isLowerAlnum a \<and> isUpperAZ b then a # sep # b # separateWords sep rest
      else a # separateWords sep (b # rest))"
| "separateWords sep s = s"

definition toKebabCase :: "string \<Rightarrow> string" where
  "toKebabCase str = toLowerCase (separateWords (CHR ''-'') str)"

definition toSnakeCase :: "string \<Rightarrow> string" where
  "toSnakeCase str = toLowerCase (separateWords (CHR ''_'') str)"

definition isSpace :: "char \<Rightarrow> bool" where
  "isSpace c = (c \<in> set [CHR 0x09, CHR 0x0A, CHR 0x0B, CHR 0x0C, CHR 0x0D, CHR '' ''])"

definition trim :: "string \<Rightarrow> string" where
  "trim s = rev (dropWhile isSpace (rev (dropWhile isSpace s)))"

text \<open>\<^verbatim>\<open>s.replace(/,$/, '')\<close>: one comma is removed when it is the last character.\<close>

definition dropTrailingComma :: "string \<Rightarrow> string" where
  "dropTrailingComma s = (case rev s of [] \<Rightarrow> [] | c # r \<Rightarrow> if c = CHR '','' then rev r else s)"

text \<open>\<^verbatim>\<open>xs.join(sep)\<close>\<close>

fun join :: "string \<Rightarrow> string list \<Rightarrow> string" where
  "join sep [] = []"
| "join sep [x] = x"
| "join sep (x # y # ys) = x @ sep @ join sep (y # ys)"

subsection \<open>Global replacement of a literal pattern\<close>

text \<open>
  Every regular expression that the generator replaces globally matches one fixed, non-empty
  text. The replacement argument is a string, so \<open>replace\<close> expands the dollar patterns in it
  (the regular expressions have no capture group): \<open>$$\<close> is a dollar sign, \<open>$&\<close> the
  matched text, \<open>$`\<close> the subject before the match and \<open>$'\<close> the subject after it; any
  other dollar sign stands for itself.
\<close>

fun getSubstitution :: "string \<Rightarrow> string \<Rightarrow> string \<Rightarrow> string \<Rightarrow> string" where
  "getSubstitution matched pre post (c # d # rest) =
     (if c = CHR ''$'' \<and> d = CHR ''$'' then CHR ''$'' # getSubstitution matched pre post rest
      else if c = CHR ''$'' \<and> d = CHR ''&'' then matched @ getSubstitution matched pre post rest
      else if c = CHR ''$'' \<and> d = CHR 0x60 then pre @ getSubstitution matched pre post rest
      else if c = CHR ''$'' \<and> d = CHR 0x27 then post @ getSubstitution matched pre post rest
      else c # getSubstitution matched pre post (d # rest))"
| "getSubstitution matched pre post s = s"

text \<open>
  \<open>replaceFrom pat repl pre s\<close> rewrites the rest \<open>s\<close> of a subject of which \<open>pre\<close>
  has been scanned already. An empty pattern never occurs in the program and leaves the
  text as it is.
\<close>

function replaceFrom :: "string \<Rightarrow> string \<Rightarrow> string \<Rightarrow> string \<Rightarrow> string" where
  "replaceFrom pat repl pre [] = []"
| "replaceFrom pat repl pre (c # cs) =
     (if pat = [] then c # cs
      else if prefix pat (c # cs)
      then getSubstitution pat pre (drop (length pat) (c # cs)) repl
           @ replaceFrom pat repl (pre @ pat) (drop (length pat) (c # cs))
      else c # replaceFrom pat repl (pre @ [c]) cs)"
  by pat_completeness auto
termination
  by (relation "measure (\<lambda>(pat, repl, pre, s). length s)") (auto simp: Suc_le_eq)

definition replaceAll :: "string \<Rightarrow> string \<Rightarrow> string \<Rightarrow> string" where
  "replaceAll pat repl s = replaceFrom pat repl [] s"

section \<open>Body values\<close>

text \<open>
  The body is what \<open>JSON.parse\<close> returns. An object is the list of its properties in the
  order in which they were created, which for a parsed object is the order of the keys in
  the text. A number is represented when it is a safe integer, an integer of magnitude below
  \<open>2\<^sup>5\<^sup>3\<close>: these are numbers of the language exactly, and \<open>ToString\<close> prints them in
  decimal. Fractions and larger numbers are not represented, and every property that depends
  on the text of a number is stated for safe integers.
\<close>

datatype json =
    JNull
  | JBool bool
  | JNum int
  | JStr string
  | JArr "json list"
  | JObj "(string \<times> json) list"

type_synonym jsobject = "(string \<times> json) list"

definition isDigit :: "char \<Rightarrow> bool" where
  "isDigit c = (c \<in> set digits)"

definition digitValue :: "char \<Rightarrow> int" where
  "digitValue c = (case map_of (zip digits [0 .. 9]) c of Some n \<Rightarrow> n | None \<Rightarrow> 0)"

definition indexValue :: "string \<Rightarrow> int" where
  "indexValue s = foldl (\<lambda>n c. 10 * n + digitValue c) 0 s"

text \<open>
  A property key is an array index when it is the canonical decimal form of an integer
  from \<open>0\<close> to \<open>2\<^sup>3\<^sup>2 - 2\<close>.
\<close>

fun isArrayIndex :: "string \<Rightarrow> bool" where
  "isArrayIndex [] = False"
| "isArrayIndex (c # cs) =
     (list_all isDigit (c # cs) \<and>
      (if c = CHR ''0'' then cs = [] else indexValue (c # cs) < 4294967295))"

text \<open>
  \<open>Object.entries\<close> lists the own properties with the array-index keys first, in ascending
  numeric order, and then the other keys in the order of their creation.
\<close>

definition Object_entries :: "jsobject \<Rightarrow> jsobject" where
  "Object_entries obj =
     sort_key (\<lambda>(k, v). indexValue k) (filter (\<lambda>(k, v). isArrayIndex k) obj)
     @ filter (\<lambda>(k, v). \<not> isArrayIndex k) obj"

text \<open>\<^verbatim>\<open>typeof value === 'object' && value !== null && !Array.isArray(value)\<close>\<close>

fun isGroup :: "json \<Rightarrow> bool" where
  "isGroup (JObj obj) = True"
| "isGroup v = False"

lemma Object_entries_mset: "mset (Object_entries obj) = mset obj"
  unfolding Object_entries_def by (simp add: case_prod_unfold)

lemma set_Object_entries [simp]: "set (Object_entries obj) = set obj"
  by (metis Object_entries_mset set_mset_mset)

lemma size_member_JObj:
  assumes "(k, v) \<in> set obj"
  shows "size v < size (JObj obj)"
proof -
  have "size_prod (\<lambda>x. 0) size (k, v) \<le> size_list (size_prod (\<lambda>x. 0) size) obj"
    using assms by (rule size_list_estimation') simp
  then show ?thesis by simp
qed

subsection \<open>Conversion of a value to a property key\<close>

function showNat :: "nat \<Rightarrow> string" where
  "showNat n = (if n < 10 then [digits ! n] else showNat (n div 10) @ [digits ! (n mod 10)])"
  by pat_completeness auto
termination
  by (relation "measure id") auto

declare showNat.simps [simp del]

definition showInt :: "int \<Rightarrow> string" where
  "showInt i = (if i < 0 then ''-'' @ showNat (nat (- i)) else showNat (nat i))"

text \<open>
  \<open>ToString\<close>, which \<^verbatim>\<open>variableTemplates[fieldType]\<close> applies to a value that is not a
  string: an array is the comma-joined texts of its elements, with \<open>null\<close> elements empty.
\<close>

fun jsToString :: "json \<Rightarrow> string" where
  "jsToString JNull = ''null''"
| "jsToString (JBool b) = (if b then ''true'' else ''false'')"
| "jsToString (JNum n) = showInt n"
| "jsToString (JStr s) = s"
| "jsToString (JArr xs) = join '','' (map (\<lambda>x. if x = JNull then [] else jsToString x) xs)"
| "jsToString (JObj obj) = ''[object Object]''"

text \<open>
  \<open>Number.isSafeInteger\<close>, and the values whose property key \<open>jsToString\<close> gives exactly:
  those in which every number that is printed is a safe integer.
\<close>

definition isSafeInteger :: "int \<Rightarrow> bool" where
  "isSafeInteger n = (\<bar>n\<bar> < 9007199254740992)"

fun safeNumbers :: "json \<Rightarrow> bool" where
  "safeNumbers (JNum n) = isSafeInteger n"
| "safeNumbers (JArr xs) = list_all safeNumbers xs"
| "safeNumbers v = True"

subsection \<open>Property lookup in the snippet table\<close>

text \<open>
  The snippet table \<open>variableTemplates\<close> is a plain object whose own properties are strings.
  A lookup that finds no own property continues in \<open>Object.prototype\<close>, whose members are
  functions (and, for \<open>__proto__\<close>, the prototype object).
\<close>

type_synonym variables = "string \<rightharpoonup> string"

definition objectPrototypeKeys :: "string list" where
  "objectPrototypeKeys =
     [''constructor'', ''__defineGetter__'', ''__defineSetter__'', ''hasOwnProperty'',
      ''__lookupGetter__'', ''__lookupSetter__'', ''isPrototypeOf'', ''propertyIsEnumerable'',
      ''toString'', ''valueOf'', ''__proto__'', ''toLocaleString'']"

datatype property = Undefined | StringValue string | PrototypeMember

definition getProperty :: "variables \<Rightarrow> string \<Rightarrow> property" where
  "getProperty variableTemplates k =
     (case variableTemplates k of
        Some s \<Rightarrow> StringValue s
      | None \<Rightarrow> if k \<in> set objectPrototypeKeys then PrototypeMember else Undefined)"

fun truthy :: "property \<Rightarrow> bool" where
  "truthy Undefined = False"
| "truthy (StringValue s) = (s \<noteq> [])"
| "truthy PrototypeMember = True"

section \<open>Body expansion\<close>

datatype error = TypeError string

record replacements =
  formItems :: string
  types :: string
  defaultValues :: string
  fields' :: string
  interfaces :: string
  zodSchema :: string

text \<open>
  The record package reserves the name \<open>fields\<close>, so the buffer \<open>fields\<close> is \<open>fields'\<close>.
  While the body is walked, the closure \<open>processField\<close> writes to the six buffers and to the
  array \<open>allFields\<close>. A call that throws leaves the generator without a result, so the
  walker returns either the error or the state after the call.
\<close>

record walker = replacements +
  allFields :: "string list"

definition newWalker :: walker where
  "newWalker =
     \<lparr>formItems = [], types = [], defaultValues = [], fields' = [], interfaces = [],
      zodSchema = [], allFields = []\<rparr>"

text \<open>The text \<^verbatim>\<open>''\<close> of an empty string literal, and a text in single quotes.\<close>

definition emptyLiteral :: string where
  "emptyLiteral = [CHR 0x27, CHR 0x27]"

definition quoted :: "string \<Rightarrow> string" where
  "quoted s = [CHR 0x27] @ s @ [CHR 0x27]"

text \<open>\<^verbatim>\<open>prefix ? `${prefix}.${key}` : key\<close>\<close>

definition fullPathOf :: "string \<Rightarrow> string \<Rightarrow> string" where
  "fullPathOf pfx key = (if pfx \<noteq> [] then pfx @ ''.'' @ key else key)"

text \<open>\<open>Object.entries(obj).forEach\<close> with a callback that may throw.\<close>

fun forEachEntry ::
  "(string \<Rightarrow> json \<Rightarrow> 's \<Rightarrow> error + 's) \<Rightarrow> jsobject \<Rightarrow> 's \<Rightarrow> error + 's" where
  "forEachEntry f [] st = Inr st"
| "forEachEntry f ((k, v) # es) st =
     (case f k v st of Inl e \<Rightarrow> Inl e | Inr st' \<Rightarrow> forEachEntry f es st')"

lemma forEachEntry_cong [fundef_cong]:
  assumes "es = es'" and "st = st'"
    and "\<And>k v s. (k, v) \<in> set es' \<Longrightarrow> f k v s = g k v s"
  shows "forEachEntry f es st = forEachEntry g es' st'"
  using assms(3) unfolding assms(1,2)
  by (induction es' arbitrary: st') (auto split: sum.splits)

text \<open>
  The interface declaration that \<open>processField\<close> builds for a group; \<open>interfaceMember\<close>
  is the body of the \<open>forEach\<close> callback, the line that one property adds.
\<close>

definition interfaceMember :: "string \<Rightarrow> json \<Rightarrow> string" where
  "interfaceMember nestedKey nestedValue =
     (if isGroup nestedValue
      then ''  '' @ nestedKey @ '': '' @ capitalize nestedKey @ '';\<newline>''
      else ''  '' @ nestedKey @ '': string;\<newline>'')"

definition interfaceDeclaration :: "string \<Rightarrow> jsobject \<Rightarrow> string" where
  "interfaceDeclaration interfaceName value =
     foldl (\<lambda>interfaceContent (nestedKey, nestedValue).
              interfaceContent @ interfaceMember nestedKey nestedValue)
       (''export interface '' @ interfaceName @ '' {\<newline>'') (Object_entries value)
     @ ''}\<newline>\<newline>''"

text \<open>
  The two generators of nested literals. \<open>nestedDefaultsEntry\<close> and \<open>nestedZodEntry\<close> are
  the bodies of their \<open>forEach\<close> callbacks: what one property adds to \<open>result\<close>.
\<close>

function generateNestedDefaults :: "jsobject \<Rightarrow> string"
  and nestedDefaultsEntry :: "string \<Rightarrow> json \<Rightarrow> string" where
  "generateNestedDefaults obj =
     foldl (\<lambda>result (key, value). result @ nestedDefaultsEntry key value)
       ''{\<newline>'' (Object_entries obj)
     @ ''  }''"
| "nestedDefaultsEntry key (JObj value) =
     ''    '' @ key @ '': '' @ generateNestedDefaults value @ '',\<newline>''"
| "nestedDefaultsEntry key JNull = ''    '' @ key @ '': '' @ emptyLiteral @ '',\<newline>''"
| "nestedDefaultsEntry key (JBool b) = ''    '' @ key @ '': '' @ emptyLiteral @ '',\<newline>''"
| "nestedDefaultsEntry key (JNum n) = ''    '' @ key @ '': '' @ emptyLiteral @ '',\<newline>''"
| "nestedDefaultsEntry key (JStr s) = ''    '' @ key @ '': '' @ emptyLiteral @ '',\<newline>''"
| "nestedDefaultsEntry key (JArr xs) = ''    '' @ key @ '': '' @ emptyLiteral @ '',\<newline>''"
  by pat_completeness auto
termination
  by (relation "measure (\<lambda>x. case x of Inl obj \<Rightarrow> 2 * size (JObj obj)
                                     | Inr (key, value) \<Rightarrow> 2 * size value + 1)")
     (auto dest: size_member_JObj)

function generateNestedZodSchema :: "jsobject \<Rightarrow> string"
  and nestedZodEntry :: "string \<Rightarrow> json \<Rightarrow> string" where
  "generateNestedZodSchema obj =
     foldl (\<lambda>result (key, value). result @ nestedZodEntry key value)
       ''{\<newline>'' (Object_entries obj)
     @ ''  }''"
| "nestedZodEntry key (JObj value) =
     ''    '' @ key @ '': z.object('' @ generateNestedZodSchema value @ ''),\<newline>''"
| "nestedZodEntry key JNull = ''    '' @ key @ '': z.string(),\<newline>''"
| "nestedZodEntry key (JBool b) = ''    '' @ key @ '': z.string(),\<newline>''"
| "nestedZodEntry key (JNum n) = ''    '' @ key @ '': z.string(),\<newline>''"
| "nestedZodEntry key (JStr s) = ''    '' @ key @ '': z.string(),\<newline>''"
| "nestedZodEntry key (JArr xs) = ''    '' @ key @ '': z.string(),\<newline>''"
  by pat_completeness auto
termination
  by (relation "measure (\<lambda>x. case x of Inl obj \<Rightarrow> 2 * size (JObj obj)
                                     | Inr (key, value) \<Rightarrow> 2 * size value + 1)")
     (auto dest: size_member_JObj)

declare generateNestedDefaults.simps(1) [simp del]
declare generateNestedZodSchema.simps(1) [simp del]

text \<open>
  The leaf branch of \<open>processField\<close>. The snippet is looked up under the property key of the
  value; calling \<open>replace\<close> on a member of \<open>Object.prototype\<close> throws a \<open>TypeError\<close>.
\<close>

definition processLeaf ::
  "variables \<Rightarrow> string \<Rightarrow> json \<Rightarrow> string \<Rightarrow> walker \<Rightarrow> error + walker" where
  "processLeaf variableTemplates key value pfx st =
     (let fullPath = fullPathOf pfx key;
          template = getProperty variableTemplates (jsToString value)
      in case (if truthy template
               then (case template of
                       StringValue t \<Rightarrow>
                         Inr (st\<lparr>formItems := formItems st
                                  @ replaceAll ''{{fullPath}}'' fullPath
                                      (replaceAll ''{{Name}}'' (capitalize key)
                                        (replaceAll ''{{name}}'' key t))
                                  @ ''\<newline>''\<rparr>)
                     | _ \<Rightarrow> Inl (TypeError ''template.replace is not a function''))
               else Inr st) of
           Inl e \<Rightarrow> Inl e
         | Inr st1 \<Rightarrow>
             (let st2 = (if pfx = []
                         then st1\<lparr>types := types st1 @ ''  '' @ key @ '': string;\<newline>'',
                                 defaultValues := defaultValues st1
                                   @ ''  '' @ key @ '': '' @ emptyLiteral @ '',\<newline>''\<rparr>
                         else st1)
              in Inr (st2\<lparr>allFields := allFields st2 @ [quoted fullPath]\<rparr>)))"

function (sequential) processField ::
  "variables \<Rightarrow> string \<Rightarrow> json \<Rightarrow> string \<Rightarrow> walker \<Rightarrow> error + walker" where
  "processField variableTemplates key (JObj value) pfx st =
     (let fullPath = fullPathOf pfx key;
          interfaceName = capitalize key;
          st1 = st\<lparr>interfaces := interfaces st @ interfaceDeclaration interfaceName value\<rparr>;
          st2 = st1\<lparr>types := types st1 @ ''  '' @ key @ '': '' @ interfaceName @ '';\<newline>''\<rparr>;
          st3 = st2\<lparr>defaultValues := defaultValues st2
                  @ ''  '' @ key @ '': '' @ generateNestedDefaults value @ '',\<newline>''\<rparr>;
          st4 = st3\<lparr>zodSchema := zodSchema st3
                  @ ''  '' @ key @ '': z.object('' @ generateNestedZodSchema value @ ''),\<newline>''\<rparr>
      in forEachEntry
           (\<lambda>nestedKey nestedValue. processField variableTemplates nestedKey nestedValue fullPath)
           (Object_entries value) st4)"
| "processField variableTemplates key value pfx st =
     processLeaf variableTemplates key value pfx st"
  by pat_completeness auto
termination
  by (relation "measure (\<lambda>(vt, key, value, pfx, st). size value)")
     (auto dest: size_member_JObj)

text \<open>
  After the walk the field list is joined and the default values are trimmed; the other
  four buffers are returned as the walk left them.
\<close>

definition generateBodyReplacements :: "jsobject \<Rightarrow> variables \<Rightarrow> error + replacements" where
  "generateBodyReplacements bodyObject variableTemplates =
     (case forEachEntry (\<lambda>key value. processField variableTemplates key value [])
             (Object_entries bodyObject) newWalker of
        Inl e \<Rightarrow> Inl e
      | Inr st \<Rightarrow>
          Inr \<lparr>formItems = formItems st, types = types st,
               defaultValues = dropTrailingComma (trim (defaultValues st)),
               fields' = join '', '' (allFields st),
               interfaces = interfaces st, zodSchema = zodSchema st\<rparr>)"

section \<open>Placeholders\<close>

text \<open>The seven passes of \<open>replacePlaceholders\<close>, in the order of the source.\<close>

definition replacePlaceholders :: "string \<Rightarrow> string \<Rightarrow> string" where
  "replacePlaceholders text moduleName =
     replaceAll ''{{name.pascal}}'' (capitalize moduleName)
       (replaceAll ''{{name.camel}}'' (toCamelCase moduleName)
         (replaceAll ''{{name_snake}}'' (toSnakeCase moduleName)
           (replaceAll ''{{name-kebab}}'' (toKebabCase moduleName)
             (replaceAll ''{{NAME}}'' (toUpperCase moduleName)
               (replaceAll ''{{Name}}'' (capitalize moduleName)
                 (replaceAll ''{{name}}'' moduleName text))))))"

text \<open>
  \<open>Object.entries(replacements)\<close>: the six buffers in the order in which
  \<open>generateBodyReplacements\<close> creates them.
\<close>

definition replacementEntries :: "replacements \<Rightarrow> (string \<times> string) list" where
  "replacementEntries r =
     [(''formItems'', formItems r), (''types'', types r), (''defaultValues'', defaultValues r),
      (''fields'', fields' r), (''interfaces'', interfaces r), (''zodSchema'', zodSchema r)]"

definition placeholders :: "string \<Rightarrow> string list" where
  "placeholders key =
     [''{{body:'' @ key @ ''}}'', ''{{body: '' @ key @ ''}}'',
      ''{{ body:'' @ key @ '' }}'', ''{{ body: '' @ key @ '' }}'']"

text \<open>
  Each placeholder is escaped before it becomes a regular expression, which therefore
  matches the placeholder text itself; the replacement string is passed as it is.
\<close>

definition replaceBodyPlaceholders :: "string \<Rightarrow> replacements \<Rightarrow> string" where
  "replaceBodyPlaceholders content r =
     foldl (\<lambda>result (key, v).
              foldl (\<lambda>result placeholder. replaceAll placeholder v result) result
                (placeholders key))
       content (replacementEntries r)"

section \<open>A generation run\<close>

text \<open>
  What a collaborator of the generator throws: an \<open>Error\<close> with its message, \<open>null\<close>,
  \<open>undefined\<close>, or another value that has no property \<open>message\<close>, such as a string. Thrown
  objects whose \<open>message\<close> is not a string are not represented.
\<close>

datatype thrown = ErrorObject string | WithoutMessage | ThrownNull | ThrownUndefined

text \<open>
  \<^verbatim>\<open>(error as Error).message\<close>: the message, \<open>undefined\<close> (here \<open>None\<close>) for a value without
  one, and a \<open>TypeError\<close> for \<open>null\<close> and \<open>undefined\<close>.
\<close>

definition messageOf :: "thrown \<Rightarrow> error + string option" where
  "messageOf e =
     (case e of
        ErrorObject m \<Rightarrow> Inr (Some m)
      | WithoutMessage \<Rightarrow> Inr None
      | ThrownNull \<Rightarrow>
          Inl (TypeError (''Cannot read properties of null (reading '' @ quoted ''message'' @ '')''))
      | ThrownUndefined \<Rightarrow>
          Inl (TypeError
                (''Cannot read properties of undefined (reading '' @ quoted ''message'' @ '')'')))"

text \<open>
  The list \<open>errors\<close> holds what the \<open>catch\<close> block pushes, which is \<open>undefined\<close> (\<open>None\<close>) when
  the value caught has no message.
\<close>

record GenerationResult =
  success :: bool
  files :: "string list"
  errors :: "string option list"
  warnings :: "string list"

record TemplateConfig =
  path :: string
  output' :: "string option"
  variables :: "variables option"
  ignore :: "string list option"

text \<open>
  The file system, the formatter, the hooks of the configuration and the test of the ignore
  patterns are outside the generator. Each is a function that returns its result or the
  value that it throws; a hook that is not configured is one that returns, and the hooks
  leave the result that they are passed as it is. \<open>pathExists\<close> is also asked about the path
  \<open>undefined\<close>, which is \<open>None\<close>. The field \<open>output\<close> of a template is \<open>output'\<close>, since \<open>output\<close>
  is a keyword. \<open>globFiles\<close> gives every file under the template path with its path relative
  to it, and \<open>writeFile\<close> creates the directory and writes the file.
\<close>

record collaborators =
  pathExists :: "string option \<Rightarrow> bool"
  beforeGenerate :: "thrown option"
  globFiles :: "string \<Rightarrow> (string \<times> string) list"
  shouldIgnore :: "string \<Rightarrow> string list \<Rightarrow> thrown + bool"
  readFile :: "string \<Rightarrow> thrown + string"
  beforeFileGenerate :: "string \<Rightarrow> string \<Rightarrow> thrown + string"
  formatCode :: "string \<Rightarrow> string \<Rightarrow> thrown + string"
  joinPath :: "string \<Rightarrow> string \<Rightarrow> string"
  writeFile :: "string \<Rightarrow> string \<Rightarrow> thrown option"
  afterFileGenerate :: "string \<Rightarrow> thrown option"
  afterGenerate :: "thrown option"

text \<open>
  The body of the loop over the files. A throw leaves the loop with the value thrown and with
  the result as it is at that moment, which is what the \<open>catch\<close> block of \<open>generate\<close> sees.
  The \<open>catch\<close> block around the formatter reads the message of what it caught: in the text
  of the warning a missing message is \<open>undefined\<close>, and for \<open>null\<close> and \<open>undefined\<close> the block
  itself throws.
\<close>

definition processFile ::
  "collaborators \<Rightarrow> TemplateConfig \<Rightarrow> string \<Rightarrow> string \<Rightarrow> replacements option \<Rightarrow> bool \<Rightarrow> bool
     \<Rightarrow> string \<times> string \<Rightarrow> GenerationResult
     \<Rightarrow> (thrown \<times> GenerationResult) + GenerationResult" where
  "processFile w template moduleName finalOutputPath bodyReplacements isDryRun shouldFormat entry
     result =
     (case entry of (file, relativePath) \<Rightarrow>
      case (case ignore template of
              None \<Rightarrow> Inr False
            | Some patterns \<Rightarrow> shouldIgnore w relativePath patterns) of
        Inl e \<Rightarrow> Inl (e, result)
      | Inr True \<Rightarrow>
          Inr (result\<lparr>warnings := warnings result @ [''Skipped ignored file: '' @ relativePath]\<rparr>)
      | Inr False \<Rightarrow>
         (case readFile w file of
            Inl e \<Rightarrow> Inl (e, result)
          | Inr content \<Rightarrow>
             (let processedPath = replacePlaceholders relativePath moduleName
              in case beforeFileGenerate w processedPath (replacePlaceholders content moduleName) of
                   Inl e \<Rightarrow> Inl (e, result)
                 | Inr hooked \<Rightarrow>
                    (let replaced = (case bodyReplacements of
                                       None \<Rightarrow> hooked
                                     | Some r \<Rightarrow> replaceBodyPlaceholders hooked r)
                     in case (if shouldFormat \<and> \<not> isDryRun
                              then (case formatCode w replaced processedPath of
                                      Inr c \<Rightarrow> Inr (c, result)
                                    | Inl formatError \<Rightarrow>
                                       (case messageOf formatError of
                                          Inl (TypeError m) \<Rightarrow> Inl (ErrorObject m)
                                        | Inr message \<Rightarrow>
                                            Inr (replaced,
                                                 result\<lparr>warnings := warnings result
                                                   @ [''Could not format '' @ processedPath @ '': ''
                                                      @ (case message of
                                                           Some m \<Rightarrow> m
                                                         | None \<Rightarrow> ''undefined'')]\<rparr>)))
                              else Inr (replaced, result)) of
                          Inl e \<Rightarrow> Inl (e, result)
                        | Inr (processedContent, result1) \<Rightarrow>
                           (let outputFile = joinPath w finalOutputPath processedPath
                            in case (if isDryRun then None
                                     else case writeFile w outputFile processedContent of
                                            Some e \<Rightarrow> Some e
                                          | None \<Rightarrow> afterFileGenerate w outputFile) of
                                 Some e \<Rightarrow> Inl (e, result1)
                               | None \<Rightarrow>
                                   Inr (result1\<lparr>files := files result1 @ [processedPath]\<rparr>))))))"

fun processFiles ::
  "(string \<times> string \<Rightarrow> GenerationResult \<Rightarrow> (thrown \<times> GenerationResult) + GenerationResult)
     \<Rightarrow> (string \<times> string) list \<Rightarrow> GenerationResult
     \<Rightarrow> (thrown \<times> GenerationResult) + GenerationResult" where
  "processFiles f [] result = Inr result"
| "processFiles f (entry # rest) result =
     (case f entry result of Inl thrown \<Rightarrow> Inl thrown | Inr result1 \<Rightarrow> processFiles f rest result1)"

text \<open>\<open>outputPath || template.output || './src'\<close>: an empty string counts as absent.\<close>

definition finalOutputPathOf :: "string option \<Rightarrow> TemplateConfig \<Rightarrow> string" where
  "finalOutputPathOf outputPath template =
     (case outputPath of
        Some p \<Rightarrow> if p \<noteq> [] then p
                  else (case output' template of
                          Some q \<Rightarrow> if q \<noteq> [] then q else ''./src''
                        | None \<Rightarrow> ''./src'')
      | None \<Rightarrow> (case output' template of
                   Some q \<Rightarrow> if q \<noteq> [] then q else ''./src''
                 | None \<Rightarrow> ''./src''))"

text \<open>
  \<^verbatim>\<open>name in this.config.templates\<close>: \<open>templates\<close> holds the own properties of the object, and
  the operator \<open>in\<close> also finds the members of \<open>Object.prototype\<close>.
\<close>

definition hasTemplate :: "(string \<rightharpoonup> TemplateConfig) \<Rightarrow> string \<Rightarrow> bool" where
  "hasTemplate templates name = (templates name \<noteq> None \<or> name \<in> set objectPrototypeKeys)"

text \<open>
  The \<open>try\<close> block of \<open>generate\<close>. For a name that is found in \<open>Object.prototype\<close> only, the
  template is a member of the prototype, which has none of the properties of a template: its
  path is \<open>undefined\<close>, it has no variables, and \<open>path.join\<close> throws a \<open>TypeError\<close> for its path.
\<close>

definition tryGenerate ::
  "collaborators \<Rightarrow> (string \<rightharpoonup> TemplateConfig) \<Rightarrow> string \<Rightarrow> string \<Rightarrow> string option
     \<Rightarrow> jsobject option \<Rightarrow> bool \<Rightarrow> bool \<Rightarrow> GenerationResult
     \<Rightarrow> (thrown \<times> GenerationResult) + GenerationResult" where
  "tryGenerate w templates templateName moduleName outputPath bodyObject isDryRun shouldFormat
     result =
     (if \<not> hasTemplate templates templateName
      then Inl (ErrorObject (''Template \"'' @ templateName @ ''\" not found''), result)
      else case templates templateName of
        None \<Rightarrow>
          if \<not> pathExists w None
          then Inl (ErrorObject ''Template path not found: undefined'', result)
          else (case beforeGenerate w of
                  Some e \<Rightarrow> Inl (e, result)
                | None \<Rightarrow>
                    Inl (ErrorObject
                          ''The \"path\" argument must be of type string. Received undefined'',
                         result))
      | Some template \<Rightarrow>
         (let finalOutputPath = finalOutputPathOf outputPath template
          in if \<not> pathExists w (Some (path template))
             then Inl (ErrorObject (''Template path not found: '' @ path template), result)
             else case beforeGenerate w of
                    Some e \<Rightarrow> Inl (e, result)
                  | None \<Rightarrow>
                     (case (case (bodyObject, variables template) of
                              (Some body, Some variableTemplates) \<Rightarrow>
                                (case generateBodyReplacements body variableTemplates of
                                   Inl (TypeError m) \<Rightarrow> Inl (ErrorObject m)
                                 | Inr r \<Rightarrow> Inr (Some r))
                            | _ \<Rightarrow> Inr None) of
                        Inl e \<Rightarrow> Inl (e, result)
                      | Inr bodyReplacements \<Rightarrow>
                         (case processFiles
                                 (processFile w template moduleName finalOutputPath
                                    bodyReplacements isDryRun shouldFormat)
                                 (globFiles w (path template)) result of
                            Inl thrown \<Rightarrow> Inl thrown
                          | Inr result1 \<Rightarrow>
                             (case afterGenerate w of
                                Some e \<Rightarrow> Inl (e, result1)
                              | None \<Rightarrow> Inr result1)))))"

definition newResult :: GenerationResult where
  "newResult = \<lparr>success = True, files = [], errors = [], warnings = []\<rparr>"

text \<open>
  \<open>generate\<close> with its \<open>catch\<close> block. The promise that it returns is fulfilled with the
  result, or rejected with the \<open>TypeError\<close> that the \<open>catch\<close> block itself throws when it
  reads the message of \<open>null\<close> or \<open>undefined\<close>.
\<close>

definition generate ::
  "collaborators \<Rightarrow> (string \<rightharpoonup> TemplateConfig) \<Rightarrow> string \<Rightarrow> string \<Rightarrow> string option
     \<Rightarrow> jsobject option \<Rightarrow> bool \<Rightarrow> bool \<Rightarrow> error + GenerationResult" where
  "generate w templates templateName moduleName outputPath bodyObject isDryRun shouldFormat =
     (case tryGenerate w templates templateName moduleName outputPath bodyObject isDryRun
             shouldFormat newResult of
        Inl (e, result) \<Rightarrow>
          (case messageOf e of
             Inl typeError \<Rightarrow> Inl typeError
           | Inr message \<Rightarrow> Inr (result\<lparr>success := False, errors := errors result @ [message]\<rparr>))
      | Inr result \<Rightarrow> Inr result)"

section \<open>Notions used to state the properties\<close>

text \<open>
  \<open>appendWalker a d\<close> is the state \<open>a\<close> with the texts of \<open>d\<close> appended buffer by buffer.
\<close>

definition appendWalker :: "walker \<Rightarrow> walker \<Rightarrow> walker" where
  "appendWalker a d =
     \<lparr>formItems = formItems a @ formItems d, types = types a @ types d,
      defaultValues = defaultValues a @ defaultValues d, fields' = fields' a @ fields' d,
      interfaces = interfaces a @ interfaces d, zodSchema = zodSchema a @ zodSchema d,
      allFields = allFields a @ allFields d\<rparr>"

text \<open>The form markup that a leaf adds when its lookup yields a snippet or nothing.\<close>

definition leafMarkup :: "variables \<Rightarrow> string \<Rightarrow> json \<Rightarrow> string \<Rightarrow> string" where
  "leafMarkup variableTemplates key v pfx =
     (case getProperty variableTemplates (jsToString v) of
        StringValue t \<Rightarrow>
          if t = [] then []
          else replaceAll ''{{fullPath}}'' (fullPathOf pfx key)
                 (replaceAll ''{{Name}}'' (capitalize key) (replaceAll ''{{name}}'' key t))
               @ ''\<newline>''
      | _ \<Rightarrow> [])"

text \<open>What a leaf that does not throw adds to the buffers.\<close>

definition leafDelta :: "variables \<Rightarrow> string \<Rightarrow> json \<Rightarrow> string \<Rightarrow> walker" where
  "leafDelta variableTemplates key v pfx =
     \<lparr>formItems = leafMarkup variableTemplates key v pfx,
      types = (if pfx = [] then ''  '' @ key @ '': string;\<newline>'' else []),
      defaultValues = (if pfx = [] then ''  '' @ key @ '': '' @ emptyLiteral @ '',\<newline>'' else []),
      fields' = [], interfaces = [], zodSchema = [],
      allFields = [quoted (fullPathOf pfx key)]\<rparr>"

text \<open>What a group adds to the buffers before its members are visited.\<close>

definition groupDelta :: "string \<Rightarrow> jsobject \<Rightarrow> walker" where
  "groupDelta key obj =
     \<lparr>formItems = [],
      types = ''  '' @ key @ '': '' @ capitalize key @ '';\<newline>'',
      defaultValues = ''  '' @ key @ '': '' @ generateNestedDefaults obj @ '',\<newline>'',
      fields' = [],
      interfaces = interfaceDeclaration (capitalize key) obj,
      zodSchema = ''  '' @ key @ '': z.object('' @ generateNestedZodSchema obj @ ''),\<newline>'',
      allFields = []\<rparr>"

subsection \<open>The nodes of a body\<close>

text \<open>
  A visit is a node of the body with its depth, the prefix under which the walker reaches it
  and its key. \<open>visits\<close> lists a node and the nodes below it in the order of the walk: a group
  comes before its members, and the members come in the order in which \<open>Object.entries\<close> lists
  them, each with all the nodes below it. \<open>bodyVisits\<close> lists the nodes of a body; its entries
  are at depth \<open>0\<close> and have the empty prefix.
\<close>

type_synonym visit = "nat \<times> string \<times> string \<times> json"

function (sequential) visits :: "nat \<Rightarrow> string \<Rightarrow> string \<Rightarrow> json \<Rightarrow> visit list" where
  "visits d pfx key (JObj obj) =
     (d, pfx, key, JObj obj)
     # concat (map (\<lambda>(k, v). visits (Suc d) (fullPathOf pfx key) k v) (Object_entries obj))"
| "visits d pfx key v = [(d, pfx, key, v)]"
  by pat_completeness auto
termination
  by (relation "measure (\<lambda>(d, pfx, key, v). size v)") (auto dest: size_member_JObj)

definition bodyVisits :: "jsobject \<Rightarrow> visit list" where
  "bodyVisits bodyObject = concat (map (\<lambda>(k, v). visits 0 [] k v) (Object_entries bodyObject))"

text \<open>
  What one visit contributes to each buffer and to the field list: a group contributes its
  member line, its default entry, its interface declaration and its schema entry; a leaf
  contributes its markup and its quoted path, and its lines in \<open>types\<close> and \<open>defaultValues\<close>
  when its prefix is empty.
\<close>

fun formItemsEntry :: "variables \<Rightarrow> visit \<Rightarrow> string" where
  "formItemsEntry variableTemplates (d, pfx, key, v) =
     (if isGroup v then [] else leafMarkup variableTemplates key v pfx)"

fun typesEntry :: "visit \<Rightarrow> string" where
  "typesEntry (d, pfx, key, v) =
     (if isGroup v then ''  '' @ key @ '': '' @ capitalize key @ '';\<newline>''
      else if pfx = [] then ''  '' @ key @ '': string;\<newline>'' else [])"

fun defaultValuesEntry :: "visit \<Rightarrow> string" where
  "defaultValuesEntry (d, pfx, key, v) =
     (case v of
        JObj obj \<Rightarrow> ''  '' @ key @ '': '' @ generateNestedDefaults obj @ '',\<newline>''
      | _ \<Rightarrow> if pfx = [] then ''  '' @ key @ '': '' @ emptyLiteral @ '',\<newline>'' else [])"

fun fieldsEntry :: "visit \<Rightarrow> string list" where
  "fieldsEntry (d, pfx, key, v) = (if isGroup v then [] else [quoted (fullPathOf pfx key)])"

fun interfacesEntry :: "visit \<Rightarrow> string" where
  "interfacesEntry (d, pfx, key, v) =
     (case v of JObj obj \<Rightarrow> interfaceDeclaration (capitalize key) obj | _ \<Rightarrow> [])"

fun zodSchemaEntry :: "visit \<Rightarrow> string" where
  "zodSchemaEntry (d, pfx, key, v) =
     (case v of
        JObj obj \<Rightarrow> ''  '' @ key @ '': z.object('' @ generateNestedZodSchema obj @ ''),\<newline>''
      | _ \<Rightarrow> [])"

text \<open>
  The lines of a leaf told by its depth, as the specification words the rule: a leaf at depth
  \<open>0\<close> has its line, a leaf below has none.
\<close>

fun typesEntryByDepth :: "visit \<Rightarrow> string" where
  "typesEntryByDepth (d, pfx, key, v) =
     (if isGroup v then ''  '' @ key @ '': '' @ capitalize key @ '';\<newline>''
      else if d = 0 then ''  '' @ key @ '': string;\<newline>'' else [])"

fun defaultValuesEntryByDepth :: "visit \<Rightarrow> string" where
  "defaultValuesEntryByDepth (d, pfx, key, v) =
     (case v of
        JObj obj \<Rightarrow> ''  '' @ key @ '': '' @ generateNestedDefaults obj @ '',\<newline>''
      | _ \<Rightarrow> if d = 0 then ''  '' @ key @ '': '' @ emptyLiteral @ '',\<newline>'' else [])"

text \<open>
  The visit of a leaf throws when its tag names a member of \<open>Object.prototype\<close> that the
  snippet table does not redefine.
\<close>

fun throwsAt :: "variables \<Rightarrow> visit \<Rightarrow> bool" where
  "throwsAt variableTemplates (d, pfx, key, v) =
     (\<not> isGroup v \<and> getProperty variableTemplates (jsToString v) = PrototypeMember)"

text \<open>What one visit adds to the state of the walker.\<close>

fun visitDelta :: "variables \<Rightarrow> visit \<Rightarrow> walker" where
  "visitDelta variableTemplates (d, pfx, key, v) =
     (case v of
        JObj obj \<Rightarrow> groupDelta key obj
      | _ \<Rightarrow> leafDelta variableTemplates key v pfx)"

text \<open>
  The bodies on which the embedding is exact: every key is an ASCII text, and every number
  in a leaf is a safe integer.
\<close>

fun asciiKey :: "visit \<Rightarrow> bool" where
  "asciiKey (d, pfx, key, v) = isAscii key"

definition asciiKeys :: "jsobject \<Rightarrow> bool" where
  "asciiKeys bodyObject = list_all asciiKey (bodyVisits bodyObject)"

fun safeLeaf :: "visit \<Rightarrow> bool" where
  "safeLeaf (d, pfx, key, v) = safeNumbers v"

definition safeLeaves :: "jsobject \<Rightarrow> bool" where
  "safeLeaves bodyObject = list_all safeLeaf (bodyVisits bodyObject)"

text \<open>The bodies in which no group has the empty key.\<close>

fun groupKeyNonEmpty :: "visit \<Rightarrow> bool" where
  "groupKeyNonEmpty (d, pfx, key, v) = (\<not> isGroup v \<or> key \<noteq> [])"

definition groupKeysNonEmpty :: "jsobject \<Rightarrow> bool" where
  "groupKeysNonEmpty bodyObject = list_all groupKeyNonEmpty (bodyVisits bodyObject)"

text \<open>A visit whose prefix is empty exactly when its depth is \<open>0\<close>.\<close>

fun prefixTellsDepth :: "visit \<Rightarrow> bool" where
  "prefixTellsDepth (d, pfx, key, v) = ((pfx = []) = (d = 0))"

subsection \<open>Texts with placeholders\<close>

text \<open>
  A text is seen as a sequence of pieces: a token \<open>{{b}}\<close> whose body \<open>b\<close> has no brace, or a
  stretch of text that has no \<open>{{\<close> in it and does not end in \<open>{\<close>.
\<close>

datatype piece = Text string | Token string

fun renderPiece :: "piece \<Rightarrow> string" where
  "renderPiece (Text s) = s"
| "renderPiece (Token b) = ''{{'' @ b @ ''}}''"

definition render :: "piece list \<Rightarrow> string" where
  "render ps = concat (map renderPiece ps)"

fun plainText :: "string \<Rightarrow> bool" where
  "plainText [] = True"
| "plainText [c] = (c \<noteq> CHR ''{'')"
| "plainText (c # d # r) = (\<not> (c = CHR ''{'' \<and> d = CHR ''{'') \<and> plainText (d # r))"

definition braceFree :: "string \<Rightarrow> bool" where
  "braceFree s = (CHR ''{'' \<notin> set s \<and> CHR ''}'' \<notin> set s)"

fun wellFormedPiece :: "piece \<Rightarrow> bool" where
  "wellFormedPiece (Text s) = plainText s"
| "wellFormedPiece (Token b) = braceFree b"

definition wellFormed :: "piece list \<Rightarrow> bool" where
  "wellFormed ps = list_all wellFormedPiece ps"

definition dollarFree :: "string \<Rightarrow> bool" where
  "dollarFree s = (CHR ''$'' \<notin> set s)"

text \<open>One pass: the tokens with body \<open>a\<close> become the text \<open>v\<close>.\<close>

fun substToken :: "string \<Rightarrow> string \<Rightarrow> piece \<Rightarrow> piece" where
  "substToken a v (Text s) = Text s"
| "substToken a v (Token b) = (if b = a then Text v else Token b)"

text \<open>
  The conversions of a name as the specification words them. A text with only its first
  character in upper case, or in lower case, is that character converted by the language,
  followed by the rest of the text as it is.
\<close>

fun firstUpperCased :: "string \<Rightarrow> string" where
  "firstUpperCased [] = []"
| "firstUpperCased (c # cs) = toUpperCase [c] @ cs"

fun firstLowerCased :: "string \<Rightarrow> string" where
  "firstLowerCased [] = []"
| "firstLowerCased (c # cs) = toLowerCase [c] @ cs"

text \<open>
  The boundary rule of the specification: the separator goes between every lower-case letter
  or digit and an upper-case letter that follows it.
\<close>

fun insertAtBoundaries :: "char \<Rightarrow> string \<Rightarrow> string" where
  "insertAtBoundaries sep (a # b # rest) =
     (if isLowerAlnum a \<and> isUpperAZ b then a # sep # insertAtBoundaries sep (b # rest)
      else a # insertAtBoundaries sep (b # rest))"
| "insertAtBoundaries sep s = s"

text \<open>
  The module-name placeholders as the specification words them: what each piece of a text
  becomes for the name \<open>t\<close>. Every token other than the seven placeholders stays.
\<close>

fun expandName :: "string \<Rightarrow> piece \<Rightarrow> string" where
  "expandName t (Text s) = s"
| "expandName t (Token b) =
     (if b = ''name'' then t
      else if b = ''Name'' then firstUpperCased t
      else if b = ''NAME'' then toUpperCase t
      else if b = ''name-kebab'' then toLowerCase (insertAtBoundaries (CHR ''-'') t)
      else if b = ''name_snake'' then toLowerCase (insertAtBoundaries (CHR ''_'') t)
      else if b = ''name.camel'' then firstLowerCased t
      else if b = ''name.pascal'' then firstUpperCased t
      else ''{{'' @ b @ ''}}'')"

text \<open>The bodies of the four spellings of the placeholder of a buffer.\<close>

definition spellings :: "string \<Rightarrow> string list" where
  "spellings key = [''body:'' @ key, ''body: '' @ key, '' body:'' @ key @ '' '', '' body: '' @ key @ '' '']"

text \<open>The passes for one buffer: its tokens, in any spelling, become its text.\<close>

fun substKey :: "string \<Rightarrow> string \<Rightarrow> piece \<Rightarrow> piece" where
  "substKey key v (Text s) = Text s"
| "substKey key v (Token b) = (if b \<in> set (spellings key) then Text v else Token b)"

text \<open>
  The body placeholders as the specification words them: what each piece of a file content
  becomes for the buffers \<open>r\<close>.
\<close>

fun expandBody :: "replacements \<Rightarrow> piece \<Rightarrow> string" where
  "expandBody r (Text s) = s"
| "expandBody r (Token b) =
     (if b \<in> set (spellings ''formItems'') then formItems r
      else if b \<in> set (spellings ''types'') then types r
      else if b \<in> set (spellings ''defaultValues'') then defaultValues r
      else if b \<in> set (spellings ''fields'') then fields' r
      else if b \<in> set (spellings ''interfaces'') then interfaces r
      else if b \<in> set (spellings ''zodSchema'') then zodSchema r
      else ''{{'' @ b @ ''}}'')"

subsection \<open>Generation runs\<close>

text \<open>
  Whether the ignore patterns of a template skip a file, and the paths that the loop lists in
  \<open>files\<close> for the entries that it completes: the relative path of each file that is not
  skipped, with the module-name placeholders replaced.
\<close>

definition skipped :: "collaborators \<Rightarrow> TemplateConfig \<Rightarrow> string \<Rightarrow> bool" where
  "skipped w template relativePath =
     (case ignore template of
        None \<Rightarrow> False
      | Some patterns \<Rightarrow> shouldIgnore w relativePath patterns = Inr True)"

definition listed ::
  "collaborators \<Rightarrow> TemplateConfig \<Rightarrow> string \<Rightarrow> (string \<times> string) list \<Rightarrow> string list" where
  "listed w template moduleName entries =
     concat (map (\<lambda>(file, relativePath).
                    if skipped w template relativePath then []
                    else [replacePlaceholders relativePath moduleName]) entries)"

text \<open>
  The buffers that the loop is given: those of the expansion of the body when a body is
  passed and the template has a snippet table, none otherwise.
\<close>

definition expansionOf :: "jsobject option \<Rightarrow> TemplateConfig \<Rightarrow> error + replacements option" where
  "expansionOf bodyObject template =
     (case (bodyObject, variables template) of
        (Some body, Some variableTemplates) \<Rightarrow>
          (case generateBodyReplacements body variableTemplates of
             Inl e \<Rightarrow> Inl e
           | Inr r \<Rightarrow> Inr (Some r))
      | _ \<Rightarrow> Inr None)"

text \<open>A run whose body, if it has one, has ASCII keys and safe integers.\<close>

definition representedBody :: "jsobject option \<Rightarrow> bool" where
  "representedBody bodyObject =
     (case bodyObject of None \<Rightarrow> True | Some body \<Rightarrow> asciiKeys body \<and> safeLeaves body)"

text \<open>A template of two files, the second of which cannot be read.\<close>

definition exampleCollaborators :: collaborators where
  "exampleCollaborators =
     \<lparr>pathExists = (\<lambda>p. p \<noteq> None), beforeGenerate = None,
      globFiles = (\<lambda>p. [(''t/{{name}}.ts'', ''{{name}}.ts''), (''t/b.ts'', ''b.ts'')]),
      shouldIgnore = (\<lambda>p patterns. Inr False),
      readFile = (\<lambda>f. if f = ''t/{{name}}.ts'' then Inr ''export const {{name}} = 1''
                       else Inl (ErrorObject ''EACCES: permission denied'')),
      beforeFileGenerate = (\<lambda>p c. Inr c), formatCode = (\<lambda>c p. Inr c),
      joinPath = (\<lambda>a b. a @ ''/'' @ b),
      writeFile = (\<lambda>f c. None), afterFileGenerate = (\<lambda>f. None), afterGenerate = None\<rparr>"

definition exampleTemplates :: "string \<rightharpoonup> TemplateConfig" where
  "exampleTemplates =
     map_of [(''t'', \<lparr>path = ''t'', output' = None, variables = Some (map_of []), ignore = None\<rparr>)]"

section \<open>What a visit appends\<close>

lemma appendWalker_sel [simp]:
  "formItems (appendWalker a d) = formItems a @ formItems d"
  "types (appendWalker a d) = types a @ types d"
  "defaultValues (appendWalker a d) = defaultValues a @ defaultValues d"
  "fields' (appendWalker a d) = fields' a @ fields' d"
  "interfaces (appendWalker a d) = interfaces a @ interfaces d"
  "zodSchema (appendWalker a d) = zodSchema a @ zodSchema d"
  "allFields (appendWalker a d) = allFields a @ allFields d"
  by (simp_all add: appendWalker_def)

lemma newWalker_sel [simp]:
  "formItems newWalker = []" "types newWalker = []" "defaultValues newWalker = []"
  "fields' newWalker = []" "interfaces newWalker = []" "zodSchema newWalker = []"
  "allFields newWalker = []"
  by (simp_all add: newWalker_def)

lemma appendWalker_newWalker [simp]: "appendWalker st newWalker = st"
  by (simp add: appendWalker_def newWalker_def)

lemma processLeaf_returns:
  assumes "getProperty vt (jsToString v) \<noteq> PrototypeMember"
  shows "processLeaf vt key v pfx st = Inr (appendWalker st (leafDelta vt key v pfx))"
  using assms
  by (cases "getProperty vt (jsToString v)")
     (simp_all add: processLeaf_def leafMarkup_def leafDelta_def appendWalker_def Let_def)

lemma processLeaf_throws:
  assumes "getProperty vt (jsToString v) = PrototypeMember"
  shows "processLeaf vt key v pfx st = Inl (TypeError ''template.replace is not a function'')"
  using assms by (simp add: processLeaf_def Let_def)

lemma processField_leaf:
  assumes "\<not> isGroup v"
  shows "processField vt key v pfx st = processLeaf vt key v pfx st"
  using assms by (cases v) simp_all

lemma foldl_append_entries:
  "foldl (\<lambda>acc (k, v). acc @ g k v) init es = init @ concat (map (\<lambda>(k, v). g k v) es)"
  by (induction es arbitrary: init) (auto)

lemma interfaceDeclaration_lines:
  "interfaceDeclaration n obj =
     ''export interface '' @ n @ '' {\<newline>''
     @ concat (map (\<lambda>(k, v). interfaceMember k v) (Object_entries obj)) @ ''}\<newline>\<newline>''"
  by (simp add: interfaceDeclaration_def foldl_append_entries)

lemma generateNestedDefaults_lines:
  "generateNestedDefaults obj =
     ''{\<newline>'' @ concat (map (\<lambda>(k, v). nestedDefaultsEntry k v) (Object_entries obj)) @ ''  }''"
  by (simp add: generateNestedDefaults.simps(1) foldl_append_entries)

lemma generateNestedZodSchema_lines:
  "generateNestedZodSchema obj =
     ''{\<newline>'' @ concat (map (\<lambda>(k, v). nestedZodEntry k v) (Object_entries obj)) @ ''  }''"
  by (simp add: generateNestedZodSchema.simps(1) foldl_append_entries)

lemma concat_map_member:
  assumes "(k, v) \<in> set es"
  shows "\<exists>a b. concat (map (\<lambda>(k, v). g k v) es) = a @ g k v @ b"
proof -
  obtain xs ys where "es = xs @ (k, v) # ys"
    using assms by (auto simp: in_set_conv_decomp)
  then show ?thesis by auto
qed

lemma foldl_appendWalker_sel:
  "formItems (foldl appendWalker st ds) = formItems st @ concat (map formItems ds)"
  "types (foldl appendWalker st ds) = types st @ concat (map types ds)"
  "defaultValues (foldl appendWalker st ds) = defaultValues st @ concat (map defaultValues ds)"
  "fields' (foldl appendWalker st ds) = fields' st @ concat (map fields' ds)"
  "interfaces (foldl appendWalker st ds) = interfaces st @ concat (map interfaces ds)"
  "zodSchema (foldl appendWalker st ds) = zodSchema st @ concat (map zodSchema ds)"
  "allFields (foldl appendWalker st ds) = allFields st @ concat (map allFields ds)"
  by (induction ds arbitrary: st) simp_all

lemma processField_group:
  "processField vt key (JObj obj) pfx st =
     forEachEntry (\<lambda>nk nv. processField vt nk nv (fullPathOf pfx key)) (Object_entries obj)
       (appendWalker st (groupDelta key obj))"
proof -
  have "st\<lparr>interfaces := interfaces st @ interfaceDeclaration (capitalize key) obj,
           types := types st @ ''  '' @ key @ '': '' @ capitalize key @ '';\<newline>'',
           defaultValues := defaultValues st @ ''  '' @ key @ '': '' @ generateNestedDefaults obj @ '',\<newline>'',
           zodSchema := zodSchema st @ ''  '' @ key @ '': z.object('' @ generateNestedZodSchema obj @ ''),\<newline>''\<rparr>
        = appendWalker st (groupDelta key obj)"
    by (simp add: appendWalker_def groupDelta_def)
  then show ?thesis by (simp add: Let_def)
qed

lemma leafDelta_sel [simp]:
  "formItems (leafDelta vt key v pfx) = leafMarkup vt key v pfx"
  "types (leafDelta vt key v pfx) = (if pfx = [] then ''  '' @ key @ '': string;\<newline>'' else [])"
  "defaultValues (leafDelta vt key v pfx) =
     (if pfx = [] then ''  '' @ key @ '': '' @ emptyLiteral @ '',\<newline>'' else [])"
  "fields' (leafDelta vt key v pfx) = []"
  "interfaces (leafDelta vt key v pfx) = []"
  "zodSchema (leafDelta vt key v pfx) = []"
  "allFields (leafDelta vt key v pfx) = [quoted (fullPathOf pfx key)]"
  by (simp_all add: leafDelta_def)

lemma groupDelta_sel [simp]:
  "formItems (groupDelta key obj) = []"
  "types (groupDelta key obj) = ''  '' @ key @ '': '' @ capitalize key @ '';\<newline>''"
  "defaultValues (groupDelta key obj) = ''  '' @ key @ '': '' @ generateNestedDefaults obj @ '',\<newline>''"
  "fields' (groupDelta key obj) = []"
  "interfaces (groupDelta key obj) = interfaceDeclaration (capitalize key) obj"
  "zodSchema (groupDelta key obj) =
     ''  '' @ key @ '': z.object('' @ generateNestedZodSchema obj @ ''),\<newline>''"
  "allFields (groupDelta key obj) = []"
  by (simp_all add: groupDelta_def)

lemma fullPathOf_nonempty: "key \<noteq> [] \<Longrightarrow> fullPathOf pfx key \<noteq> []"
  by (simp add: fullPathOf_def)

lemma processField_leaf_result:
  assumes "\<not> isGroup v" and "processField vt key v pfx st = Inr st'"
  shows "st' = appendWalker st (leafDelta vt key v pfx)"
proof (cases "getProperty vt (jsToString v) = PrototypeMember")
  case True
  then show ?thesis
    using assms by (simp add: processField_leaf processLeaf_throws)
next
  case False
  then show ?thesis
    using assms by (simp add: processField_leaf processLeaf_returns)
qed

lemma root_leaf_lines:
  assumes "\<not> isGroup v" and "processField vt key v [] st = Inr st'"
  shows "types st' = types st @ ''  '' @ key @ '': string;\<newline>''"
    and "defaultValues st' = defaultValues st @ ''  '' @ key @ '': '' @ emptyLiteral @ '',\<newline>''"
  using processField_leaf_result [OF assms] by simp_all

lemma nested_leaf_lines:
  assumes "\<not> isGroup v" and "pfx \<noteq> []" and "processField vt key v pfx st = Inr st'"
  shows "types st' = types st" and "defaultValues st' = defaultValues st"
  using processField_leaf_result [OF assms(1,3)] assms(2) by simp_all

section \<open>The walk as a list of visits\<close>

lemma forEachEntry_visits:
  assumes "\<And>k v st. (k, v) \<in> set es \<Longrightarrow>
             f k v st = (if list_ex P (V k v) then Inl E
                         else Inr (foldl appendWalker st (map D (V k v))))"
  shows "forEachEntry f es st =
           (if list_ex P (concat (map (\<lambda>(k, v). V k v) es)) then Inl E
            else Inr (foldl appendWalker st (map D (concat (map (\<lambda>(k, v). V k v) es)))))"
  using assms
proof (induction es arbitrary: st)
  case Nil
  then show ?case by simp
next
  case (Cons e es)
  obtain k v where e: "e = (k, v)" by (cases e)
  have step: "f k v st = (if list_ex P (V k v) then Inl E
                         else Inr (foldl appendWalker st (map D (V k v))))"
    using Cons.prems e by simp
  have IH: "forEachEntry f es st' =
           (if list_ex P (concat (map (\<lambda>(k, v). V k v) es)) then Inl E
            else Inr (foldl appendWalker st' (map D (concat (map (\<lambda>(k, v). V k v) es)))))" for st'
    using Cons.IH Cons.prems by simp
  show ?case
    unfolding e by (simp add: step IH)
qed

lemma processLeaf_visits:
  "processLeaf vt key v pfx st =
     (if getProperty vt (jsToString v) = PrototypeMember
      then Inl (TypeError ''template.replace is not a function'')
      else Inr (appendWalker st (leafDelta vt key v pfx)))"
  by (simp add: processLeaf_throws processLeaf_returns)

lemma processField_visits:
  "processField vt key v pfx st =
     (if list_ex (throwsAt vt) (visits d pfx key v)
      then Inl (TypeError ''template.replace is not a function'')
      else Inr (foldl appendWalker st (map (visitDelta vt) (visits d pfx key v))))"
proof (induction vt key v pfx st arbitrary: d rule: processField.induct)
  case (1 vt key obj pfx st)
  have "forEachEntry (\<lambda>nk nv. processField vt nk nv (fullPathOf pfx key)) (Object_entries obj) st'
      = (if list_ex (throwsAt vt)
              (concat (map (\<lambda>(k, v). visits (Suc d) (fullPathOf pfx key) k v) (Object_entries obj)))
         then Inl (TypeError ''template.replace is not a function'')
         else Inr (foldl appendWalker st'
                (map (visitDelta vt)
                   (concat (map (\<lambda>(k, v). visits (Suc d) (fullPathOf pfx key) k v)
                      (Object_entries obj))))))" for st'
    by (rule forEachEntry_visits) (rule "1.IH", auto)
  then show ?case
    unfolding processField_group by simp
qed (simp_all add: processLeaf_visits)

lemma visitDelta_sel:
  "formItems (visitDelta vt x) = formItemsEntry vt x"
  "types (visitDelta vt x) = typesEntry x"
  "defaultValues (visitDelta vt x) = defaultValuesEntry x"
  "fields' (visitDelta vt x) = []"
  "interfaces (visitDelta vt x) = interfacesEntry x"
  "zodSchema (visitDelta vt x) = zodSchemaEntry x"
  "allFields (visitDelta vt x) = fieldsEntry x"
proof -
  obtain d pfx key v where x: "x = (d, pfx, key, v)" by (cases x)
  show "formItems (visitDelta vt x) = formItemsEntry vt x"
    "types (visitDelta vt x) = typesEntry x"
    "defaultValues (visitDelta vt x) = defaultValuesEntry x"
    "fields' (visitDelta vt x) = []"
    "interfaces (visitDelta vt x) = interfacesEntry x"
    "zodSchema (visitDelta vt x) = zodSchemaEntry x"
    "allFields (visitDelta vt x) = fieldsEntry x"
    unfolding x by (cases v; simp)+
qed

lemma generateBodyReplacements_visits:
  "generateBodyReplacements bodyObject vt =
     (if list_ex (throwsAt vt) (bodyVisits bodyObject)
      then Inl (TypeError ''template.replace is not a function'')
      else Inr \<lparr>formItems = concat (map (formItemsEntry vt) (bodyVisits bodyObject)),
                types = concat (map typesEntry (bodyVisits bodyObject)),
                defaultValues =
                  dropTrailingComma (trim (concat (map defaultValuesEntry (bodyVisits bodyObject)))),
                fields' = join '', '' (concat (map fieldsEntry (bodyVisits bodyObject))),
                interfaces = concat (map interfacesEntry (bodyVisits bodyObject)),
                zodSchema = concat (map zodSchemaEntry (bodyVisits bodyObject))\<rparr>)"
proof -
  have walk: "forEachEntry (\<lambda>key v. processField vt key v []) (Object_entries bodyObject) newWalker
      = (if list_ex (throwsAt vt) (bodyVisits bodyObject)
         then Inl (TypeError ''template.replace is not a function'')
         else Inr (foldl appendWalker newWalker (map (visitDelta vt) (bodyVisits bodyObject))))"
    unfolding bodyVisits_def
    by (rule forEachEntry_visits) (rule processField_visits)
  have sel: "(\<lambda>x. formItems (visitDelta vt x)) = formItemsEntry vt"
    "(\<lambda>x. types (visitDelta vt x)) = typesEntry"
    "(\<lambda>x. defaultValues (visitDelta vt x)) = defaultValuesEntry"
    "(\<lambda>x. interfaces (visitDelta vt x)) = interfacesEntry"
    "(\<lambda>x. zodSchema (visitDelta vt x)) = zodSchemaEntry"
    "(\<lambda>x. allFields (visitDelta vt x)) = fieldsEntry"
    by (simp_all add: visitDelta_sel)
  show ?thesis
    unfolding generateBodyReplacements_def walk
    by (simp add: foldl_appendWalker_sel comp_def sel)
qed

lemma list_all_concat_mapD:
  assumes "list_all P (concat (map (\<lambda>(k, v). f k v) es))" and "(k, v) \<in> set es"
  shows "list_all P (f k v)"
  using assms by (induction es) auto

lemma list_all_concat_mapI:
  assumes "\<And>k v. (k, v) \<in> set es \<Longrightarrow> list_all P (f k v)"
  shows "list_all P (concat (map (\<lambda>(k, v). f k v) es))"
  using assms by (induction es) auto

lemma visits_depth_prefix:
  assumes "list_all groupKeyNonEmpty (visits d0 pfx0 key0 v0)"
    and "(pfx0 = []) = (d0 = 0)"
  shows "list_all prefixTellsDepth (visits d0 pfx0 key0 v0)"
  using assms
proof (induction d0 pfx0 key0 v0 rule: visits.induct)
  case (1 d pfx key obj)
  have key: "key \<noteq> []" using "1.prems"(1) by simp
  have below: "list_all prefixTellsDepth (visits (Suc d) (fullPathOf pfx key) k v)"
    if mem: "(k, v) \<in> set (Object_entries obj)" for k v
  proof (rule "1.IH" [OF mem refl])
    have "list_all groupKeyNonEmpty
            (concat (map (\<lambda>(k, v). visits (Suc d) (fullPathOf pfx key) k v) (Object_entries obj)))"
      using "1.prems"(1) by simp
    then show "list_all groupKeyNonEmpty (visits (Suc d) (fullPathOf pfx key) k v)"
      using mem by (rule list_all_concat_mapD)
    show "(fullPathOf pfx key = []) = (Suc d = 0)"
      using fullPathOf_nonempty [OF key] by simp
  qed
  have "list_all prefixTellsDepth
          (concat (map (\<lambda>(k, v). visits (Suc d) (fullPathOf pfx key) k v) (Object_entries obj)))"
    by (rule list_all_concat_mapI) (rule below)
  then show ?case
    using "1.prems"(2) by simp
qed simp_all

lemma bodyVisits_depth_prefix:
  assumes "groupKeysNonEmpty bodyObject"
  shows "list_all prefixTellsDepth (bodyVisits bodyObject)"
proof -
  have "list_all prefixTellsDepth (visits 0 [] k v)"
    if "(k, v) \<in> set (Object_entries bodyObject)" for k v
  proof (rule visits_depth_prefix)
    show "list_all groupKeyNonEmpty (visits 0 [] k v)"
      using assms that unfolding groupKeysNonEmpty_def bodyVisits_def
      by (rule list_all_concat_mapD)
  qed simp
  then show ?thesis
    unfolding bodyVisits_def by (rule list_all_concat_mapI)
qed

lemma byDepth_eq:
  assumes "groupKeysNonEmpty bodyObject"
  shows "map typesEntryByDepth (bodyVisits bodyObject) = map typesEntry (bodyVisits bodyObject)"
    and "map defaultValuesEntryByDepth (bodyVisits bodyObject)
           = map defaultValuesEntry (bodyVisits bodyObject)"
proof -
  have all: "prefixTellsDepth x" if "x \<in> set (bodyVisits bodyObject)" for x
    using bodyVisits_depth_prefix [OF assms] that by (simp add: list_all_iff)
  have t: "typesEntryByDepth x = typesEntry x" if "x \<in> set (bodyVisits bodyObject)" for x
  proof -
    obtain d pfx key v where x: "x = (d, pfx, key, v)" by (cases x)
    have "(pfx = []) = (d = 0)" using all [OF that] x by simp
    then show ?thesis unfolding x by simp
  qed
  have dv: "defaultValuesEntryByDepth x = defaultValuesEntry x"
    if "x \<in> set (bodyVisits bodyObject)" for x
  proof -
    obtain d pfx key v where x: "x = (d, pfx, key, v)" by (cases x)
    have "(pfx = []) = (d = 0)" using all [OF that] x by simp
    then show ?thesis unfolding x by (cases v) simp_all
  qed
  show "map typesEntryByDepth (bodyVisits bodyObject) = map typesEntry (bodyVisits bodyObject)"
    using t by simp
  show "map defaultValuesEntryByDepth (bodyVisits bodyObject)
           = map defaultValuesEntry (bodyVisits bodyObject)"
    using dv by simp
qed

lemma visits_self: "(d, pfx, key, v) \<in> set (visits d pfx key v)"
  by (cases v) simp_all

lemma visits_members:
  assumes "(d, pfx, key, JObj obj) \<in> set (visits d0 pfx0 key0 v0)" and "(ck, cv) \<in> set obj"
  shows "(Suc d, fullPathOf pfx key, ck, cv) \<in> set (visits d0 pfx0 key0 v0)"
  using assms
proof (induction d0 pfx0 key0 v0 rule: visits.induct)
  case (1 d0 pfx0 key0 obj0)
  have mem: "(ck, cv) \<in> set (Object_entries obj)" using "1.prems"(2) by simp
  show ?case
  proof (cases "(d, pfx, key, JObj obj) = (d0, pfx0, key0, JObj obj0)")
    case True
    have "(Suc d0, fullPathOf pfx0 key0, ck, cv) \<in> set (visits (Suc d0) (fullPathOf pfx0 key0) ck cv)"
      by (rule visits_self)
    moreover have "(ck, cv) \<in> set (Object_entries obj0)" using mem True by simp
    ultimately have "(Suc d0, fullPathOf pfx0 key0, ck, cv)
        \<in> set (concat (map (\<lambda>(k, v). visits (Suc d0) (fullPathOf pfx0 key0) k v)
                          (Object_entries obj0)))"
      by (auto intro!: bexI [of _ "(ck, cv)"])
    then show ?thesis using True by simp
  next
    case False
    then obtain k v where kv: "(k, v) \<in> set (Object_entries obj0)"
      and x: "(d, pfx, key, JObj obj) \<in> set (visits (Suc d0) (fullPathOf pfx0 key0) k v)"
      using "1.prems"(1) by auto
    have "(Suc d, fullPathOf pfx key, ck, cv) \<in> set (visits (Suc d0) (fullPathOf pfx0 key0) k v)"
      by (rule "1.IH" [OF kv refl x "1.prems"(2)])
    then have "(Suc d, fullPathOf pfx key, ck, cv)
        \<in> set (concat (map (\<lambda>(k, v). visits (Suc d0) (fullPathOf pfx0 key0) k v)
                          (Object_entries obj0)))"
      using kv by (auto intro!: bexI [of _ "(k, v)"])
    then show ?thesis by simp
  qed
qed simp_all

lemma bodyVisits_root:
  assumes "(k, v) \<in> set bodyObject"
  shows "(0, [], k, v) \<in> set (bodyVisits bodyObject)"
proof -
  have "(k, v) \<in> set (Object_entries bodyObject)" using assms by simp
  moreover have "(0, [], k, v) \<in> set (visits 0 [] k v)" by (rule visits_self)
  ultimately show ?thesis
    unfolding bodyVisits_def by (auto intro!: bexI [of _ "(k, v)"])
qed

lemma bodyVisits_members:
  assumes "(d, pfx, key, JObj obj) \<in> set (bodyVisits bodyObject)" and "(ck, cv) \<in> set obj"
  shows "(Suc d, fullPathOf pfx key, ck, cv) \<in> set (bodyVisits bodyObject)"
proof -
  obtain k v where kv: "(k, v) \<in> set (Object_entries bodyObject)"
    and x: "(d, pfx, key, JObj obj) \<in> set (visits 0 [] k v)"
    using assms(1) unfolding bodyVisits_def by auto
  have "(Suc d, fullPathOf pfx key, ck, cv) \<in> set (visits 0 [] k v)"
    by (rule visits_members [OF x assms(2)])
  then show ?thesis
    unfolding bodyVisits_def using kv by (auto intro!: bexI [of _ "(k, v)"])
qed

lemma generateBodyReplacements_returns:
  assumes "\<not> list_ex (throwsAt vt) (bodyVisits bodyObject)"
  shows "\<exists>r. generateBodyReplacements bodyObject vt = Inr r"
  using assms by (simp add: generateBodyReplacements_visits)

lemma generateBodyReplacements_result:
  assumes "generateBodyReplacements bodyObject vt = Inr r"
  shows "formItems r = concat (map (formItemsEntry vt) (bodyVisits bodyObject))"
    and "types r = concat (map typesEntry (bodyVisits bodyObject))"
    and "defaultValues r =
           dropTrailingComma (trim (concat (map defaultValuesEntry (bodyVisits bodyObject))))"
    and "fields' r = join '', '' (concat (map fieldsEntry (bodyVisits bodyObject)))"
    and "interfaces r = concat (map interfacesEntry (bodyVisits bodyObject))"
    and "zodSchema r = concat (map zodSchemaEntry (bodyVisits bodyObject))"
proof -
  have r: "r = \<lparr>formItems = concat (map (formItemsEntry vt) (bodyVisits bodyObject)),
                types = concat (map typesEntry (bodyVisits bodyObject)),
                defaultValues =
                  dropTrailingComma (trim (concat (map defaultValuesEntry (bodyVisits bodyObject)))),
                fields' = join '', '' (concat (map fieldsEntry (bodyVisits bodyObject))),
                interfaces = concat (map interfacesEntry (bodyVisits bodyObject)),
                zodSchema = concat (map zodSchemaEntry (bodyVisits bodyObject))\<rparr>"
    using assms unfolding generateBodyReplacements_visits by (simp split: if_splits)
  show "formItems r = concat (map (formItemsEntry vt) (bodyVisits bodyObject))"
    and "types r = concat (map typesEntry (bodyVisits bodyObject))"
    and "defaultValues r =
           dropTrailingComma (trim (concat (map defaultValuesEntry (bodyVisits bodyObject))))"
    and "fields' r = join '', '' (concat (map fieldsEntry (bodyVisits bodyObject)))"
    and "interfaces r = concat (map interfacesEntry (bodyVisits bodyObject))"
    and "zodSchema r = concat (map zodSchemaEntry (bodyVisits bodyObject))"
    by (simp_all add: r)
qed

lemma processField_result:
  assumes "processField vt key v pfx st = Inr st'"
  shows "formItems st' = formItems st @ concat (map (formItemsEntry vt) (visits d pfx key v))"
    and "types st' = types st @ concat (map typesEntry (visits d pfx key v))"
    and "defaultValues st' = defaultValues st @ concat (map defaultValuesEntry (visits d pfx key v))"
    and "fields' st' = fields' st"
    and "interfaces st' = interfaces st @ concat (map interfacesEntry (visits d pfx key v))"
    and "zodSchema st' = zodSchema st @ concat (map zodSchemaEntry (visits d pfx key v))"
    and "allFields st' = allFields st @ concat (map fieldsEntry (visits d pfx key v))"
proof -
  have st': "st' = foldl appendWalker st (map (visitDelta vt) (visits d pfx key v))"
    using assms unfolding processField_visits [of vt key v pfx st d] by (simp split: if_splits)
  have sel: "(\<lambda>x. formItems (visitDelta vt x)) = formItemsEntry vt"
    "(\<lambda>x. types (visitDelta vt x)) = typesEntry"
    "(\<lambda>x. defaultValues (visitDelta vt x)) = defaultValuesEntry"
    "(\<lambda>x. fields' (visitDelta vt x)) = (\<lambda>x. [])"
    "(\<lambda>x. interfaces (visitDelta vt x)) = interfacesEntry"
    "(\<lambda>x. zodSchema (visitDelta vt x)) = zodSchemaEntry"
    "(\<lambda>x. allFields (visitDelta vt x)) = fieldsEntry"
    by (simp_all add: visitDelta_sel)
  show "formItems st' = formItems st @ concat (map (formItemsEntry vt) (visits d pfx key v))"
    and "types st' = types st @ concat (map typesEntry (visits d pfx key v))"
    and "defaultValues st' = defaultValues st @ concat (map defaultValuesEntry (visits d pfx key v))"
    and "fields' st' = fields' st"
    and "interfaces st' = interfaces st @ concat (map interfacesEntry (visits d pfx key v))"
    and "zodSchema st' = zodSchema st @ concat (map zodSchemaEntry (visits d pfx key v))"
    and "allFields st' = allFields st @ concat (map fieldsEntry (visits d pfx key v))"
    by (simp_all add: st' foldl_appendWalker_sel comp_def sel)
qed

lemma sublist_concat_map:
  assumes "x \<in> set xs"
  shows "sublist (f x) (concat (map f xs))"
proof -
  obtain as bs where "xs = as @ x # bs"
    using assms by (auto simp: in_set_conv_decomp)
  then have "concat (map f xs) = concat (map f as) @ f x @ concat (map f bs)" by simp
  then show ?thesis unfolding sublist_def by blast
qed

section \<open>Leaves\<close>

lemma leaf_inside_interface:
  assumes mem: "(ck, cv) \<in> set obj" and leaf: "\<not> isGroup cv"
  shows "sublist (''  '' @ ck @ '': string;\<newline>'') (interfaceDeclaration n obj)"
proof -
  have mem': "(ck, cv) \<in> set (Object_entries obj)" using mem by simp
  have e1: "interfaceMember ck cv = ''  '' @ ck @ '': string;\<newline>''"
    using leaf by (simp add: interfaceMember_def)
  from concat_map_member [OF mem', of interfaceMember] obtain a b where
    "concat (map (\<lambda>(k, v). interfaceMember k v) (Object_entries obj))
       = a @ interfaceMember ck cv @ b" by blast
  then have "interfaceDeclaration n obj
       = (''export interface '' @ n @ '' {\<newline>'' @ a)
         @ (''  '' @ ck @ '': string;\<newline>'') @ (b @ ''}\<newline>\<newline>'')"
    by (simp add: interfaceDeclaration_lines e1)
  then show ?thesis unfolding sublist_def by blast
qed

lemma leaf_inside_defaults:
  assumes mem: "(ck, cv) \<in> set obj" and leaf: "\<not> isGroup cv"
  shows "sublist (''    '' @ ck @ '': '' @ emptyLiteral @ '',\<newline>'') (generateNestedDefaults obj)"
proof -
  have mem': "(ck, cv) \<in> set (Object_entries obj)" using mem by simp
  have e2: "nestedDefaultsEntry ck cv = ''    '' @ ck @ '': '' @ emptyLiteral @ '',\<newline>''"
    using leaf by (cases cv) simp_all
  from concat_map_member [OF mem', of nestedDefaultsEntry] obtain a' b' where
    "concat (map (\<lambda>(k, v). nestedDefaultsEntry k v) (Object_entries obj))
       = a' @ nestedDefaultsEntry ck cv @ b'" by blast
  then have "generateNestedDefaults obj
       = (''{\<newline>'' @ a') @ (''    '' @ ck @ '': '' @ emptyLiteral @ '',\<newline>'') @ (b' @ ''  }'')"
    by (simp add: generateNestedDefaults_lines [of obj] e2)
  then show ?thesis unfolding sublist_def by blast
qed




section \<open>Scenario B\<close>

lemma processField_leaf_returns:
  assumes "\<not> isGroup v" and "variableTemplates (jsToString v) = Some t"
  shows "processField variableTemplates key v pfx st
     = Inr (appendWalker st (leafDelta variableTemplates key v pfx))"
proof -
  have "getProperty variableTemplates (jsToString v) \<noteq> PrototypeMember"
    using assms(2) by (simp add: getProperty_def)
  then show ?thesis
    using assms(1) by (simp add: processField_leaf processLeaf_returns)
qed

lemma scenario_B_walk:
  assumes "variableTemplates ''input'' = Some a" and "variableTemplates ''select'' = Some b"
  shows "forEachEntry (\<lambda>key v. processField variableTemplates key v [])
           (Object_entries
             [(''name'', JStr ''input''),
              (''address'', JObj [(''city'', JStr ''input''), (''country'', JStr ''select'')])])
           newWalker
         = Inr (appendWalker
                 (appendWalker
                   (appendWalker
                     (leafDelta variableTemplates ''name'' (JStr ''input'') [])
                     (groupDelta ''address''
                       [(''city'', JStr ''input''), (''country'', JStr ''select'')]))
                   (leafDelta variableTemplates ''city'' (JStr ''input'') ''address''))
                 (leafDelta variableTemplates ''country'' (JStr ''select'') ''address''))"
proof -
  have oe1: "Object_entries
      [(''name'', JStr ''input''),
       (''address'', JObj [(''city'', JStr ''input''), (''country'', JStr ''select'')])]
    = [(''name'', JStr ''input''),
       (''address'', JObj [(''city'', JStr ''input''), (''country'', JStr ''select'')])]"
    by code_simp
  have oe2: "Object_entries [(''city'', JStr ''input''), (''country'', JStr ''select'')]
    = [(''city'', JStr ''input''), (''country'', JStr ''select'')]"
    by code_simp
  have fp: "fullPathOf [] ''address'' = ''address''"
    by (simp add: fullPathOf_def)
  have input: "processField variableTemplates key (JStr ''input'') pfx st
      = Inr (appendWalker st (leafDelta variableTemplates key (JStr ''input'') pfx))" for key pfx st
    by (rule processField_leaf_returns [where t = a]) (simp_all add: assms)
  have select: "processField variableTemplates key (JStr ''select'') pfx st
      = Inr (appendWalker st (leafDelta variableTemplates key (JStr ''select'') pfx))" for key pfx st
    by (rule processField_leaf_returns [where t = b]) (simp_all add: assms)
  have address: "processField variableTemplates ''address''
        (JObj [(''city'', JStr ''input''), (''country'', JStr ''select'')]) [] st
      = Inr (appendWalker
              (appendWalker
                (appendWalker st
                  (groupDelta ''address''
                    [(''city'', JStr ''input''), (''country'', JStr ''select'')]))
                (leafDelta variableTemplates ''city'' (JStr ''input'') ''address''))
              (leafDelta variableTemplates ''country'' (JStr ''select'') ''address''))" for st
    unfolding processField_group oe2 fp by (simp only: forEachEntry.simps input select sum.case)
  show ?thesis
    unfolding oe1 by (simp only: forEachEntry.simps input address sum.case appendWalker_newWalker
        appendWalker_sel) (simp add: appendWalker_def)
qed



section \<open>Groups\<close>

lemma group_inside_defaults:
  assumes mem: "(ck, JObj cobj) \<in> set obj"
  shows "sublist (''    '' @ ck @ '': '' @ generateNestedDefaults cobj @ '',\<newline>'')
           (generateNestedDefaults obj)"
proof -
  have mem': "(ck, JObj cobj) \<in> set (Object_entries obj)" using mem by simp
  from concat_map_member [OF mem', of nestedDefaultsEntry] obtain a b where
    "concat (map (\<lambda>(k, v). nestedDefaultsEntry k v) (Object_entries obj))
       = a @ nestedDefaultsEntry ck (JObj cobj) @ b" by blast
  then have "generateNestedDefaults obj
       = (''{\<newline>'' @ a) @ (''    '' @ ck @ '': '' @ generateNestedDefaults cobj @ '',\<newline>'')
         @ (b @ ''  }'')"
    by (simp add: generateNestedDefaults_lines [of obj])
  then show ?thesis unfolding sublist_def by blast
qed

lemma group_inside_interface:
  assumes mem: "(ck, JObj cobj) \<in> set obj"
  shows "sublist (''  '' @ ck @ '': '' @ capitalize ck @ '';\<newline>'') (interfaceDeclaration n obj)"
proof -
  have mem': "(ck, JObj cobj) \<in> set (Object_entries obj)" using mem by simp
  from concat_map_member [OF mem', of interfaceMember] obtain a b where
    "concat (map (\<lambda>(k, v). interfaceMember k v) (Object_entries obj))
       = a @ interfaceMember ck (JObj cobj) @ b" by blast
  then have "interfaceDeclaration n obj
       = (''export interface '' @ n @ '' {\<newline>'' @ a)
         @ (''  '' @ ck @ '': '' @ capitalize ck @ '';\<newline>'') @ (b @ ''}\<newline>\<newline>'')"
    by (simp add: interfaceDeclaration_lines interfaceMember_def)
  then show ?thesis unfolding sublist_def by blast
qed

text \<open>
  Claim C3. The exclusion of nested nodes from the top-level buffers applies to leaves only.
  For a body with ASCII keys and safe integers, an expansion that returns gives in \<open>types\<close>, in \<open>defaultValues\<close>
  before the final trimming, in \<open>interfaces\<close> and in \<open>zodSchema\<close> the entries of all the visits
  of the body in the order of the walk, and the expansion returns when no tag names a member
  of \<open>Object.prototype\<close>. The entries of a group are the same at every depth and for every
  prefix: the member line \<open>key: CapitalizedKey;\<close> in \<open>types\<close>, the entry \<open>key: literal,\<close> in
  \<open>defaultValues\<close>, the declaration \<open>export interface CapitalizedKey\<close> in \<open>interfaces\<close> and the
  entry \<open>key: z.object(...),\<close> in \<open>zodSchema\<close>; each is part of its buffer for every
  group that is visited. Every group of the body is visited: the groups
  among the entries of the body at depth \<open>0\<close>, and each group that is a member of a visited
  group one level below it. Such a member group therefore has entries of its own and also
  occurs inside the nested literal and the interface of its parent.
\<close>

theorem group_entries_at_every_depth:
  "(asciiKeys bodyObject \<longrightarrow> safeLeaves bodyObject \<longrightarrow>
      generateBodyReplacements bodyObject vt = Inr r \<longrightarrow>
      types r = concat (map typesEntry (bodyVisits bodyObject))
      \<and> defaultValues r =
          dropTrailingComma (trim (concat (map defaultValuesEntry (bodyVisits bodyObject))))
      \<and> interfaces r = concat (map interfacesEntry (bodyVisits bodyObject))
      \<and> zodSchema r = concat (map zodSchemaEntry (bodyVisits bodyObject)))
   \<and> (\<not> list_ex (throwsAt vt) (bodyVisits bodyObject) \<longrightarrow>
      (\<exists>r. generateBodyReplacements bodyObject vt = Inr r))
   \<and> typesEntry (d, pfx, key, JObj obj) = ''  '' @ key @ '': '' @ capitalize key @ '';\<newline>''
   \<and> defaultValuesEntry (d, pfx, key, JObj obj)
       = ''  '' @ key @ '': '' @ generateNestedDefaults obj @ '',\<newline>''
   \<and> interfacesEntry (d, pfx, key, JObj obj) = interfaceDeclaration (capitalize key) obj
   \<and> prefix (''export interface '' @ capitalize key @ '' {\<newline>'')
        (interfaceDeclaration (capitalize key) obj)
   \<and> zodSchemaEntry (d, pfx, key, JObj obj)
       = ''  '' @ key @ '': z.object('' @ generateNestedZodSchema obj @ ''),\<newline>''
   \<and> ((d, pfx, key, JObj obj) \<in> set (bodyVisits bodyObject) \<longrightarrow>
      asciiKeys bodyObject \<longrightarrow> safeLeaves bodyObject \<longrightarrow>
      generateBodyReplacements bodyObject vt = Inr r \<longrightarrow>
      sublist (''  '' @ key @ '': '' @ capitalize key @ '';\<newline>'') (types r)
      \<and> sublist (''  '' @ key @ '': '' @ generateNestedDefaults obj @ '',\<newline>'')
          (concat (map defaultValuesEntry (bodyVisits bodyObject)))
      \<and> sublist (interfaceDeclaration (capitalize key) obj) (interfaces r)
      \<and> sublist (''  '' @ key @ '': z.object('' @ generateNestedZodSchema obj @ ''),\<newline>'')
          (zodSchema r))
   \<and> ((key, JObj obj) \<in> set bodyObject \<longrightarrow> (0, [], key, JObj obj) \<in> set (bodyVisits bodyObject))
   \<and> ((d, pfx, key, JObj obj) \<in> set (bodyVisits bodyObject) \<longrightarrow> (ck, JObj cobj) \<in> set obj \<longrightarrow>
      (Suc d, fullPathOf pfx key, ck, JObj cobj) \<in> set (bodyVisits bodyObject)
      \<and> sublist (''    '' @ ck @ '': '' @ generateNestedDefaults cobj @ '',\<newline>'')
          (generateNestedDefaults obj)
      \<and> sublist (''  '' @ ck @ '': '' @ capitalize ck @ '';\<newline>'')
          (interfaceDeclaration (capitalize key) obj))"
proof (intro conjI impI)
  assume run: "generateBodyReplacements bodyObject vt = Inr r"
  show "types r = concat (map typesEntry (bodyVisits bodyObject))"
    by (rule generateBodyReplacements_result(2) [OF run])
  show "defaultValues r =
          dropTrailingComma (trim (concat (map defaultValuesEntry (bodyVisits bodyObject))))"
    by (rule generateBodyReplacements_result(3) [OF run])
  show "interfaces r = concat (map interfacesEntry (bodyVisits bodyObject))"
    by (rule generateBodyReplacements_result(5) [OF run])
  show "zodSchema r = concat (map zodSchemaEntry (bodyVisits bodyObject))"
    by (rule generateBodyReplacements_result(6) [OF run])
next
  assume "\<not> list_ex (throwsAt vt) (bodyVisits bodyObject)"
  then show "\<exists>r. generateBodyReplacements bodyObject vt = Inr r"
    by (rule generateBodyReplacements_returns)
next
  show "typesEntry (d, pfx, key, JObj obj) = ''  '' @ key @ '': '' @ capitalize key @ '';\<newline>''"
    by simp
  show "defaultValuesEntry (d, pfx, key, JObj obj)
       = ''  '' @ key @ '': '' @ generateNestedDefaults obj @ '',\<newline>''"
    by simp
  show "interfacesEntry (d, pfx, key, JObj obj) = interfaceDeclaration (capitalize key) obj"
    by simp
  show "prefix (''export interface '' @ capitalize key @ '' {\<newline>'')
        (interfaceDeclaration (capitalize key) obj)"
    by (simp add: interfaceDeclaration_lines)
  show "zodSchemaEntry (d, pfx, key, JObj obj)
       = ''  '' @ key @ '': z.object('' @ generateNestedZodSchema obj @ ''),\<newline>''"
    by simp
next
  assume x: "(d, pfx, key, JObj obj) \<in> set (bodyVisits bodyObject)"
    and run: "generateBodyReplacements bodyObject vt = Inr r"
  show "sublist (''  '' @ key @ '': '' @ capitalize key @ '';\<newline>'') (types r)"
    using sublist_concat_map [OF x, of typesEntry]
    unfolding generateBodyReplacements_result(2) [OF run] by simp
  show "sublist (''  '' @ key @ '': '' @ generateNestedDefaults obj @ '',\<newline>'')
          (concat (map defaultValuesEntry (bodyVisits bodyObject)))"
    using sublist_concat_map [OF x, of defaultValuesEntry] by simp
  show "sublist (interfaceDeclaration (capitalize key) obj) (interfaces r)"
    using sublist_concat_map [OF x, of interfacesEntry]
    unfolding generateBodyReplacements_result(5) [OF run] by simp
  show "sublist (''  '' @ key @ '': z.object('' @ generateNestedZodSchema obj @ ''),\<newline>'')
          (zodSchema r)"
    using sublist_concat_map [OF x, of zodSchemaEntry]
    unfolding generateBodyReplacements_result(6) [OF run] by simp
next
  assume "(key, JObj obj) \<in> set bodyObject"
  then show "(0, [], key, JObj obj) \<in> set (bodyVisits bodyObject)"
    by (rule bodyVisits_root)
next
  assume x: "(d, pfx, key, JObj obj) \<in> set (bodyVisits bodyObject)"
    and mem: "(ck, JObj cobj) \<in> set obj"
  show "(Suc d, fullPathOf pfx key, ck, JObj cobj) \<in> set (bodyVisits bodyObject)"
    by (rule bodyVisits_members [OF x mem])
  show "sublist (''    '' @ ck @ '': '' @ generateNestedDefaults cobj @ '',\<newline>'')
          (generateNestedDefaults obj)"
    by (rule group_inside_defaults [OF mem])
  show "sublist (''  '' @ ck @ '': '' @ capitalize ck @ '';\<newline>'')
          (interfaceDeclaration (capitalize key) obj)"
    by (rule group_inside_interface [OF mem])
qed

text \<open>
  The body \<open>{"user":{"address":{"geo":{"lat":"input"}}}}\<close>: the group \<open>geo\<close>, two levels
  below the root, is visited and has its entries in the four buffers.
\<close>

theorem group_entries_at_every_depth_witness:
  "asciiKeys [(''user'', JObj [(''address'', JObj [(''geo'', JObj [(''lat'', JStr ''input'')])])])]
   \<and> safeLeaves [(''user'', JObj [(''address'', JObj [(''geo'', JObj [(''lat'', JStr ''input'')])])])]
   \<and> (''user'', JObj [(''address'', JObj [(''geo'', JObj [(''lat'', JStr ''input'')])])])
       \<in> set [(''user'', JObj [(''address'', JObj [(''geo'', JObj [(''lat'', JStr ''input'')])])])]
   \<and> (2, ''user.address'', ''geo'', JObj [(''lat'', JStr ''input'')])
       \<in> set (bodyVisits
                [(''user'', JObj [(''address'', JObj [(''geo'', JObj [(''lat'', JStr ''input'')])])])])
   \<and> (\<exists>r. generateBodyReplacements
         [(''user'', JObj [(''address'', JObj [(''geo'', JObj [(''lat'', JStr ''input'')])])])]
         (map_of [(''input'', ''<Input/>'')]) = Inr r
       \<and> types r = ''  user: User;\<newline>  address: Address;\<newline>  geo: Geo;\<newline>''
       \<and> defaultValues r
           = ''user: {\<newline>    address: {\<newline>    geo: {\<newline>    lat: '' @ emptyLiteral
             @ '',\<newline>  },\<newline>  },\<newline>  },\<newline>  address: {\<newline>    geo: {\<newline>    lat: '' @ emptyLiteral
             @ '',\<newline>  },\<newline>  },\<newline>  geo: {\<newline>    lat: '' @ emptyLiteral @ '',\<newline>  }''
       \<and> interfaces r
           = ''export interface User {\<newline>  address: Address;\<newline>}\<newline>\<newline>''
             @ ''export interface Address {\<newline>  geo: Geo;\<newline>}\<newline>\<newline>''
             @ ''export interface Geo {\<newline>  lat: string;\<newline>}\<newline>\<newline>''
       \<and> zodSchema r
           = ''  user: z.object({\<newline>    address: z.object({\<newline>    geo: z.object({\<newline>    lat: z.string(),\<newline>  }),\<newline>  }),\<newline>  }),\<newline>''
             @ ''  address: z.object({\<newline>    geo: z.object({\<newline>    lat: z.string(),\<newline>  }),\<newline>  }),\<newline>''
             @ ''  geo: z.object({\<newline>    lat: z.string(),\<newline>  }),\<newline>'')"
proof -
  let ?geo = "[(''lat'', JStr ''input'')]"
  let ?address = "[(''geo'', JObj ?geo)]"
  let ?user = "[(''address'', JObj ?address)]"
  let ?body = "[(''user'', JObj ?user)]"
  let ?vt = "map_of [(''input'', ''<Input/>'')]"
  define g where "g = generateBodyReplacements ?body ?vt"
  have h1: "asciiKeys ?body" by code_simp
  have h1': "safeLeaves ?body" by code_simp
  have "g = Inr (projr g)" unfolding g_def by code_simp
  then have h2: "generateBodyReplacements ?body ?vt = Inr (projr g)" by (simp add: g_def)
  have m0: "(''user'', JObj ?user) \<in> set ?body" by simp
  have m1: "(''address'', JObj ?address) \<in> set ?user" by simp
  have m2: "(''geo'', JObj ?geo) \<in> set ?address" by simp
  have p: "fullPathOf [] ''user'' = ''user''" "fullPathOf ''user'' ''address'' = ''user.address''"
    by (simp_all add: fullPathOf_def)
  note T = group_entries_at_every_depth [where bodyObject = ?body and vt = ?vt and r = "projr g"]
  note E = T [THEN conjunct1, rule_format, OF h1 h1' h2]
  note R = T [THEN conjunct2, THEN conjunct2, THEN conjunct2, THEN conjunct2, THEN conjunct2,
      THEN conjunct2, THEN conjunct2, THEN conjunct2, THEN conjunct1, rule_format]
  note M = T [THEN conjunct2, THEN conjunct2, THEN conjunct2, THEN conjunct2, THEN conjunct2,
      THEN conjunct2, THEN conjunct2, THEN conjunct2, THEN conjunct2, rule_format,
      THEN conjunct1]
  have v0: "(0, [], ''user'', JObj ?user) \<in> set (bodyVisits ?body)"
    by (rule R [OF m0])
  have v1: "(1, ''user'', ''address'', JObj ?address) \<in> set (bodyVisits ?body)"
    using M [OF v0 m1] by (simp add: p)
  have v2: "(2, ''user.address'', ''geo'', JObj ?geo) \<in> set (bodyVisits ?body)"
    using M [OF v1 m2] by (simp add: p numeral_2_eq_2)
  have t: "concat (map typesEntry (bodyVisits ?body))
      = ''  user: User;\<newline>  address: Address;\<newline>  geo: Geo;\<newline>''"
    by code_simp
  have d: "dropTrailingComma (trim (concat (map defaultValuesEntry (bodyVisits ?body))))
      = ''user: {\<newline>    address: {\<newline>    geo: {\<newline>    lat: '' @ emptyLiteral
             @ '',\<newline>  },\<newline>  },\<newline>  },\<newline>  address: {\<newline>    geo: {\<newline>    lat: '' @ emptyLiteral
             @ '',\<newline>  },\<newline>  },\<newline>  geo: {\<newline>    lat: '' @ emptyLiteral @ '',\<newline>  }''"
    by code_simp
  have i: "concat (map interfacesEntry (bodyVisits ?body))
      = ''export interface User {\<newline>  address: Address;\<newline>}\<newline>\<newline>''
             @ ''export interface Address {\<newline>  geo: Geo;\<newline>}\<newline>\<newline>''
             @ ''export interface Geo {\<newline>  lat: string;\<newline>}\<newline>\<newline>''"
    by code_simp
  have z: "concat (map zodSchemaEntry (bodyVisits ?body))
      = ''  user: z.object({\<newline>    address: z.object({\<newline>    geo: z.object({\<newline>    lat: z.string(),\<newline>  }),\<newline>  }),\<newline>  }),\<newline>''
             @ ''  address: z.object({\<newline>    geo: z.object({\<newline>    lat: z.string(),\<newline>  }),\<newline>  }),\<newline>''
             @ ''  geo: z.object({\<newline>    lat: z.string(),\<newline>  }),\<newline>''"
    by code_simp
  have "types (projr g) = ''  user: User;\<newline>  address: Address;\<newline>  geo: Geo;\<newline>''"
    using E [THEN conjunct1] unfolding t .
  moreover have "defaultValues (projr g)
      = ''user: {\<newline>    address: {\<newline>    geo: {\<newline>    lat: '' @ emptyLiteral
             @ '',\<newline>  },\<newline>  },\<newline>  },\<newline>  address: {\<newline>    geo: {\<newline>    lat: '' @ emptyLiteral
             @ '',\<newline>  },\<newline>  },\<newline>  geo: {\<newline>    lat: '' @ emptyLiteral @ '',\<newline>  }''"
    using E [THEN conjunct2, THEN conjunct1] unfolding d .
  moreover have "interfaces (projr g)
      = ''export interface User {\<newline>  address: Address;\<newline>}\<newline>\<newline>''
             @ ''export interface Address {\<newline>  geo: Geo;\<newline>}\<newline>\<newline>''
             @ ''export interface Geo {\<newline>  lat: string;\<newline>}\<newline>\<newline>''"
    using E [THEN conjunct2, THEN conjunct2, THEN conjunct1] unfolding i .
  moreover have "zodSchema (projr g)
      = ''  user: z.object({\<newline>    address: z.object({\<newline>    geo: z.object({\<newline>    lat: z.string(),\<newline>  }),\<newline>  }),\<newline>  }),\<newline>''
             @ ''  address: z.object({\<newline>    geo: z.object({\<newline>    lat: z.string(),\<newline>  }),\<newline>  }),\<newline>''
             @ ''  geo: z.object({\<newline>    lat: z.string(),\<newline>  }),\<newline>''"
    using E [THEN conjunct2, THEN conjunct2, THEN conjunct2] unfolding z .
  ultimately show ?thesis using h1 h1' h2 m0 v2 by blast
qed

section \<open>Order of the entries\<close>

lemma Object_entries_plain:
  assumes "list_all (\<lambda>(k, v). \<not> isArrayIndex k) obj"
  shows "Object_entries obj = obj"
proof -
  have "filter (\<lambda>(k, v). isArrayIndex k) obj = []"
    using assms by (auto simp: list_all_iff filter_empty_conv)
  moreover have "filter (\<lambda>(k, v). \<not> isArrayIndex k) obj = obj"
    using assms by (auto simp: list_all_iff filter_id_conv)
  ultimately show ?thesis by (simp add: Object_entries_def)
qed

lemma Object_entries_named:
  "filter (\<lambda>(k, v). \<not> isArrayIndex k) (Object_entries obj)
     = filter (\<lambda>(k, v). \<not> isArrayIndex k) obj"
proof -
  have "filter (\<lambda>(k, v). \<not> isArrayIndex k)
          (sort_key (\<lambda>(k, v). indexValue k) (filter (\<lambda>(k, v). isArrayIndex k) obj)) = []"
    by (auto simp: filter_empty_conv)
  then show ?thesis by (simp add: Object_entries_def)
qed

lemma Object_entries_index_part:
  "filter (\<lambda>(k, v). isArrayIndex k) (Object_entries obj)
     = sort_key (\<lambda>(k, v). indexValue k) (filter (\<lambda>(k, v). isArrayIndex k) obj)"
  by (simp add: Object_entries_def filter_sort [symmetric] case_prod_unfold)

lemma Object_entries_indices:
  "sorted (map (\<lambda>(k, v). indexValue k) (filter (\<lambda>(k, v). isArrayIndex k) (Object_entries obj)))"
  by (simp add: Object_entries_index_part)

lemma Object_entries_indices_first:
  "Object_entries obj
     = filter (\<lambda>(k, v). isArrayIndex k) (Object_entries obj)
       @ filter (\<lambda>(k, v). \<not> isArrayIndex k) (Object_entries obj)"
  unfolding Object_entries_index_part Object_entries_named by (simp add: Object_entries_def)

text \<open>
  Claim C6. At every level the entries of an object are taken in the order in which
  \<open>Object.entries\<close> lists them: all its properties, the keys that are array indices first, in
  ascending numeric order, then the other keys in the order of their insertion; this is the
  insertion order of the object when no key is an array index. The walk visits the entries
  of the body in that order, and below a group its members in that order, each followed by
  the nodes below it. The member lines of an interface and the entries of the nested literals
  are the entries' lines in that order. For a body with ASCII keys and safe integers an
  expansion that returns gives in each of the six buffers the entries of the visits in the
  order of the walk, and the expansion returns when no tag names a member of
  \<open>Object.prototype\<close>.
\<close>

theorem entries_in_enumeration_order:
  "mset (Object_entries obj) = mset obj
   \<and> Object_entries obj
       = filter (\<lambda>(k, v). isArrayIndex k) (Object_entries obj)
         @ filter (\<lambda>(k, v). \<not> isArrayIndex k) (Object_entries obj)
   \<and> sorted (map (\<lambda>(k, v). indexValue k)
        (filter (\<lambda>(k, v). isArrayIndex k) (Object_entries obj)))
   \<and> filter (\<lambda>(k, v). \<not> isArrayIndex k) (Object_entries obj)
       = filter (\<lambda>(k, v). \<not> isArrayIndex k) obj
   \<and> (list_all (\<lambda>(k, v). \<not> isArrayIndex k) obj \<longrightarrow> Object_entries obj = obj)
   \<and> bodyVisits bodyObject
       = concat (map (\<lambda>(k, v). visits 0 [] k v) (Object_entries bodyObject))
   \<and> visits d pfx key (JObj obj)
       = (d, pfx, key, JObj obj)
         # concat (map (\<lambda>(k, v). visits (Suc d) (fullPathOf pfx key) k v) (Object_entries obj))
   \<and> (\<not> isGroup v \<longrightarrow> visits d pfx key v = [(d, pfx, key, v)])
   \<and> interfaceDeclaration n obj
       = ''export interface '' @ n @ '' {\<newline>''
         @ concat (map (\<lambda>(k, v). interfaceMember k v) (Object_entries obj)) @ ''}\<newline>\<newline>''
   \<and> generateNestedDefaults obj
       = ''{\<newline>'' @ concat (map (\<lambda>(k, v). nestedDefaultsEntry k v) (Object_entries obj)) @ ''  }''
   \<and> generateNestedZodSchema obj
       = ''{\<newline>'' @ concat (map (\<lambda>(k, v). nestedZodEntry k v) (Object_entries obj)) @ ''  }''
   \<and> (asciiKeys bodyObject \<longrightarrow> safeLeaves bodyObject \<longrightarrow>
      generateBodyReplacements bodyObject vt = Inr r \<longrightarrow>
      formItems r = concat (map (formItemsEntry vt) (bodyVisits bodyObject))
      \<and> types r = concat (map typesEntry (bodyVisits bodyObject))
      \<and> defaultValues r =
          dropTrailingComma (trim (concat (map defaultValuesEntry (bodyVisits bodyObject))))
      \<and> fields' r = join '', '' (concat (map fieldsEntry (bodyVisits bodyObject)))
      \<and> interfaces r = concat (map interfacesEntry (bodyVisits bodyObject))
      \<and> zodSchema r = concat (map zodSchemaEntry (bodyVisits bodyObject)))
   \<and> (\<not> list_ex (throwsAt vt) (bodyVisits bodyObject) \<longrightarrow>
      (\<exists>r. generateBodyReplacements bodyObject vt = Inr r))"
proof (intro conjI impI)
  show "mset (Object_entries obj) = mset obj"
    by (rule Object_entries_mset)
  show "Object_entries obj
       = filter (\<lambda>(k, v). isArrayIndex k) (Object_entries obj)
         @ filter (\<lambda>(k, v). \<not> isArrayIndex k) (Object_entries obj)"
    by (rule Object_entries_indices_first)
  show "sorted (map (\<lambda>(k, v). indexValue k)
        (filter (\<lambda>(k, v). isArrayIndex k) (Object_entries obj)))"
    by (rule Object_entries_indices)
  show "filter (\<lambda>(k, v). \<not> isArrayIndex k) (Object_entries obj)
       = filter (\<lambda>(k, v). \<not> isArrayIndex k) obj"
    by (rule Object_entries_named)
  show "bodyVisits bodyObject
       = concat (map (\<lambda>(k, v). visits 0 [] k v) (Object_entries bodyObject))"
    by (rule bodyVisits_def)
  show "visits d pfx key (JObj obj)
       = (d, pfx, key, JObj obj)
         # concat (map (\<lambda>(k, v). visits (Suc d) (fullPathOf pfx key) k v) (Object_entries obj))"
    by simp
  show "interfaceDeclaration n obj
       = ''export interface '' @ n @ '' {\<newline>''
         @ concat (map (\<lambda>(k, v). interfaceMember k v) (Object_entries obj)) @ ''}\<newline>\<newline>''"
    by (rule interfaceDeclaration_lines)
  show "generateNestedDefaults obj
       = ''{\<newline>'' @ concat (map (\<lambda>(k, v). nestedDefaultsEntry k v) (Object_entries obj)) @ ''  }''"
    by (rule generateNestedDefaults_lines)
  show "generateNestedZodSchema obj
       = ''{\<newline>'' @ concat (map (\<lambda>(k, v). nestedZodEntry k v) (Object_entries obj)) @ ''  }''"
    by (rule generateNestedZodSchema_lines)
next
  assume "list_all (\<lambda>(k, v). \<not> isArrayIndex k) obj"
  then show "Object_entries obj = obj" by (rule Object_entries_plain)
next
  assume "\<not> isGroup v"
  then show "visits d pfx key v = [(d, pfx, key, v)]" by (cases v) simp_all
next
  assume run: "generateBodyReplacements bodyObject vt = Inr r"
  show "formItems r = concat (map (formItemsEntry vt) (bodyVisits bodyObject))"
    by (rule generateBodyReplacements_result(1) [OF run])
  show "types r = concat (map typesEntry (bodyVisits bodyObject))"
    by (rule generateBodyReplacements_result(2) [OF run])
  show "defaultValues r =
          dropTrailingComma (trim (concat (map defaultValuesEntry (bodyVisits bodyObject))))"
    by (rule generateBodyReplacements_result(3) [OF run])
  show "fields' r = join '', '' (concat (map fieldsEntry (bodyVisits bodyObject)))"
    by (rule generateBodyReplacements_result(4) [OF run])
  show "interfaces r = concat (map interfacesEntry (bodyVisits bodyObject))"
    by (rule generateBodyReplacements_result(5) [OF run])
  show "zodSchema r = concat (map zodSchemaEntry (bodyVisits bodyObject))"
    by (rule generateBodyReplacements_result(6) [OF run])
next
  assume "\<not> list_ex (throwsAt vt) (bodyVisits bodyObject)"
  then show "\<exists>r. generateBodyReplacements bodyObject vt = Inr r"
    by (rule generateBodyReplacements_returns)
qed

text \<open>
  The body \<open>{"b":"input","10":{"z":"select","2":"input"},"9":"input"}\<close>: the keys \<open>9\<close> and
  \<open>10\<close> come first, in numeric order, and below \<open>10\<close> the key \<open>2\<close> comes before \<open>z\<close>.
\<close>

theorem entries_in_enumeration_order_witness:
  "asciiKeys
     [(''b'', JStr ''input''), (''10'', JObj [(''z'', JStr ''select''), (''2'', JStr ''input'')]),
      (''9'', JStr ''input'')]
   \<and> safeLeaves
     [(''b'', JStr ''input''), (''10'', JObj [(''z'', JStr ''select''), (''2'', JStr ''input'')]),
      (''9'', JStr ''input'')]
   \<and> (\<exists>r. generateBodyReplacements
         [(''b'', JStr ''input''), (''10'', JObj [(''z'', JStr ''select''), (''2'', JStr ''input'')]),
          (''9'', JStr ''input'')]
         (map_of [(''input'', ''<Input name={{name}}/>''), (''select'', ''<Select path={{fullPath}}/>'')])
         = Inr r
       \<and> formItems r
           = ''<Input name=9/>\<newline><Input name=2/>\<newline><Select path=10.z/>\<newline><Input name=b/>\<newline>''
       \<and> types r = ''  9: string;\<newline>  10: 10;\<newline>  b: string;\<newline>''
       \<and> fields' r
           = quoted ''9'' @ '', '' @ quoted ''10.2'' @ '', '' @ quoted ''10.z'' @ '', '' @ quoted ''b''
       \<and> interfaces r = ''export interface 10 {\<newline>  2: string;\<newline>  z: string;\<newline>}\<newline>\<newline>'')"
proof -
  let ?body = "[(''b'', JStr ''input''),
      (''10'', JObj [(''z'', JStr ''select''), (''2'', JStr ''input'')]), (''9'', JStr ''input'')]"
  let ?vt = "map_of [(''input'', ''<Input name={{name}}/>''),
      (''select'', ''<Select path={{fullPath}}/>'')]"
  define g where "g = generateBodyReplacements ?body ?vt"
  have h1: "asciiKeys ?body" by code_simp
  have h2: "safeLeaves ?body" by code_simp
  have "g = Inr (projr g)" unfolding g_def by code_simp
  then have h3: "generateBodyReplacements ?body ?vt = Inr (projr g)" by (simp add: g_def)
  have f: "concat (map (formItemsEntry ?vt) (bodyVisits ?body))
      = ''<Input name=9/>\<newline><Input name=2/>\<newline><Select path=10.z/>\<newline><Input name=b/>\<newline>''"
    by code_simp
  have t: "concat (map typesEntry (bodyVisits ?body)) = ''  9: string;\<newline>  10: 10;\<newline>  b: string;\<newline>''"
    by code_simp
  have l: "join '', '' (concat (map fieldsEntry (bodyVisits ?body)))
      = quoted ''9'' @ '', '' @ quoted ''10.2'' @ '', '' @ quoted ''10.z'' @ '', '' @ quoted ''b''"
    by code_simp
  have i: "concat (map interfacesEntry (bodyVisits ?body))
      = ''export interface 10 {\<newline>  2: string;\<newline>  z: string;\<newline>}\<newline>\<newline>''"
    by code_simp
  note E = entries_in_enumeration_order [where bodyObject = ?body and vt = ?vt and r = "projr g",
      THEN conjunct2, THEN conjunct2, THEN conjunct2, THEN conjunct2, THEN conjunct2,
      THEN conjunct2, THEN conjunct2, THEN conjunct2, THEN conjunct2, THEN conjunct2,
      THEN conjunct2, THEN conjunct1, rule_format, OF h1 h2 h3]
  have "formItems (projr g)
      = ''<Input name=9/>\<newline><Input name=2/>\<newline><Select path=10.z/>\<newline><Input name=b/>\<newline>''"
    using E [THEN conjunct1] unfolding f .
  moreover have "types (projr g) = ''  9: string;\<newline>  10: 10;\<newline>  b: string;\<newline>''"
    using E [THEN conjunct2, THEN conjunct1] unfolding t .
  moreover have "fields' (projr g)
      = quoted ''9'' @ '', '' @ quoted ''10.2'' @ '', '' @ quoted ''10.z'' @ '', '' @ quoted ''b''"
    using E [THEN conjunct2, THEN conjunct2, THEN conjunct2, THEN conjunct1] unfolding l .
  moreover have "interfaces (projr g)
      = ''export interface 10 {\<newline>  2: string;\<newline>  z: string;\<newline>}\<newline>\<newline>''"
    using E [THEN conjunct2, THEN conjunct2, THEN conjunct2, THEN conjunct2, THEN conjunct1]
    unfolding i .
  ultimately show ?thesis using h1 h2 h3 by blast
qed

text \<open>
  In the body \<open>{"b":"input","1":"input"}\<close> the key \<open>1\<close> is inserted last and listed first.
\<close>

theorem array_index_keys_first_counterexample:
  "map_sum id fields'
     (generateBodyReplacements [(''b'', JStr ''input''), (''1'', JStr ''input'')] (map_of []))
   = Inr (quoted ''1'' @ '', '' @ quoted ''b'')"
  by code_simp

section \<open>Finalization of the buffers\<close>

lemma trim_parts:
  "t = takeWhile isSpace t @ trim t @ rev (takeWhile isSpace (rev (dropWhile isSpace t)))"
proof -
  let ?u = "dropWhile isSpace t"
  define a where "a = takeWhile isSpace (rev ?u)"
  define b where "b = dropWhile isSpace (rev ?u)"
  have "rev ?u = a @ b" by (simp add: a_def b_def)
  then have "rev (rev ?u) = rev (a @ b)" by (rule arg_cong)
  then have "?u = rev b @ rev a" by simp
  moreover have "trim t = rev b" by (simp add: trim_def b_def)
  moreover have "t = takeWhile isSpace t @ ?u" by simp
  ultimately have "t = takeWhile isSpace t @ trim t @ rev a" by simp
  then show ?thesis by (simp only: a_def)
qed

lemma trim_no_trailing_space:
  assumes "trim t = cs @ [c]"
  shows "\<not> isSpace c"
proof -
  let ?w = "dropWhile isSpace (rev (dropWhile isSpace t))"
  have "rev ?w = cs @ [c]" using assms by (simp add: trim_def)
  then have "rev (rev ?w) = rev (cs @ [c])" by (rule arg_cong)
  then have w: "?w = c # rev cs" by simp
  then have "hd ?w = c" "?w \<noteq> []" by simp_all
  then show ?thesis using hd_dropWhile [of isSpace "rev (dropWhile isSpace t)"] by auto
qed

lemma trim_no_leading_space:
  assumes "trim t = c # cs"
  shows "\<not> isSpace c"
proof -
  let ?u = "dropWhile isSpace t"
  have "?u = trim t @ rev (takeWhile isSpace (rev ?u))"
    using trim_parts [of t] takeWhile_dropWhile_id [of isSpace t] by (metis same_append_eq)
  then have "?u = c # cs @ rev (takeWhile isSpace (rev ?u))" using assms by simp
  then have "hd ?u = c" "?u \<noteq> []" by (metis list.sel(1), metis list.distinct(1))
  then show ?thesis using hd_dropWhile [of isSpace t] by auto
qed

lemma finalize_text:
  assumes "c \<in> set m" and "\<not> isSpace c"
  shows "dropTrailingComma (trim (m @ '',\<newline>'')) = dropWhile isSpace m"
proof -
  have "dropWhile isSpace (m @ '',\<newline>'') = dropWhile isSpace m @ '',\<newline>''"
    using assms by (rule dropWhile_append1)
  then have "trim (m @ '',\<newline>'') = dropWhile isSpace m @ '',''"
    by (simp add: trim_def isSpace_def)
  then show ?thesis by (simp add: dropTrailingComma_def)
qed

lemma concat_entries_end:
  assumes "\<And>e. e \<in> set es \<Longrightarrow> e = [] \<or> (\<exists>m. e = m @ s \<and> c \<in> set m)"
    and "\<exists>e \<in> set es. e \<noteq> []"
  shows "\<exists>m. concat es = m @ s \<and> c \<in> set m"
  using assms
proof (induction es rule: rev_induct)
  case Nil
  then show ?case by simp
next
  case (snoc e es)
  show ?case
  proof (cases "e = []")
    case True
    then have "\<exists>e \<in> set es. e \<noteq> []" using snoc.prems(2) by auto
    then have "\<exists>m. concat es = m @ s \<and> c \<in> set m"
      using snoc.IH snoc.prems(1) by simp
    then show ?thesis using True by simp
  next
    case False
    then obtain m where "e = m @ s" "c \<in> set m" using snoc.prems(1) [of e] by auto
    then have "concat (es @ [e]) = (concat es @ m) @ s \<and> c \<in> set (concat es @ m)" by simp
    then show ?thesis by blast
  qed
qed

lemma defaultValuesEntry_shape:
  "defaultValuesEntry x = []
   \<or> (\<exists>m. defaultValuesEntry x = m @ '',\<newline>'' \<and> CHR '':'' \<in> set m)"
proof -
  obtain d pfx key v where x: "x = (d, pfx, key, v)" by (cases x)
  show ?thesis
  proof (cases "isGroup v \<or> pfx = []")
    case False
    then have "defaultValuesEntry x = []" unfolding x by (cases v) simp_all
    then show ?thesis by simp
  next
    case True
    define lit where "lit = (case v of JObj obj \<Rightarrow> generateNestedDefaults obj | _ \<Rightarrow> emptyLiteral)"
    have "defaultValuesEntry x = (''  '' @ key @ '': '' @ lit) @ '',\<newline>''"
      using True unfolding x lit_def by (cases v) simp_all
    moreover have "CHR '':'' \<in> set (''  '' @ key @ '': '' @ lit)" by simp
    ultimately show ?thesis by blast
  qed
qed

lemma bodyVisits_first:
  assumes "bodyObject \<noteq> []"
  shows "\<exists>k v rest. bodyVisits bodyObject = (0, [], k, v) # rest"
proof -
  have "Object_entries bodyObject \<noteq> []"
    using assms Object_entries_mset [of bodyObject] by (metis mset_zero_iff)
  then obtain k v es where es: "Object_entries bodyObject = (k, v) # es"
    by (cases "Object_entries bodyObject") auto
  have "\<exists>rest. visits 0 [] k v = (0, [], k, v) # rest" by (cases v) simp_all
  then show ?thesis unfolding bodyVisits_def es by auto
qed

lemma defaultValues_end:
  assumes "bodyObject \<noteq> []"
  shows "\<exists>m. concat (map defaultValuesEntry (bodyVisits bodyObject)) = m @ '',\<newline>''
           \<and> CHR '':'' \<in> set m"
proof (rule concat_entries_end)
  fix e assume "e \<in> set (map defaultValuesEntry (bodyVisits bodyObject))"
  then obtain x where "e = defaultValuesEntry x" by auto
  then show "e = [] \<or> (\<exists>m. e = m @ '',\<newline>'' \<and> CHR '':'' \<in> set m)"
    using defaultValuesEntry_shape [of x] by simp
next
  obtain k v rest where first: "bodyVisits bodyObject = (0, [], k, v) # rest"
    using bodyVisits_first [OF assms] by blast
  have "defaultValuesEntry (0, [], k, v) \<noteq> []" by (cases v) simp_all
  then show "\<exists>e \<in> set (map defaultValuesEntry (bodyVisits bodyObject)). e \<noteq> []"
    unfolding first by simp
qed

lemma bodyVisits_empty: "bodyVisits [] = []"
  by (simp add: bodyVisits_def Object_entries_def)

text \<open>
  Claim C7. Every buffer starts empty in each call. While the body is walked the buffers are
  only appended to: a call of the walker that returns has appended to each buffer the
  entries of its visits, with nothing trimmed, and leaves \<open>fields\<close> as it is. For a body with
  ASCII keys and safe integers an expansion that returns gives \<open>formItems\<close>, \<open>types\<close>, \<open>interfaces\<close> and \<open>zodSchema\<close>
  as the entries of the visits one after the other, with nothing trimmed, and \<open>fields\<close> as
  the quoted paths joined by \<open>, \<close>. Only \<open>defaultValues\<close> is finalized, once, after the walk:
  the entries of the visits put together end in a comma and a line break, and \<open>defaultValues\<close>
  is that text without this last comma and line break and without the white space at its
  beginning; the commas and the white space between the entries stay. For the empty body
  \<open>defaultValues\<close> is empty. The expansion returns when no tag names a member of
  \<open>Object.prototype\<close>. Trimming removes white space at the two ends and nothing else, and
  leaves no white space at either end; the comma that is removed is one comma at the very
  end, and a text that ends otherwise is left as it is.
\<close>

theorem buffers_finalized_once:
  "formItems newWalker = [] \<and> types newWalker = [] \<and> defaultValues newWalker = []
   \<and> fields' newWalker = [] \<and> interfaces newWalker = [] \<and> zodSchema newWalker = []
   \<and> allFields newWalker = []
   \<and> (asciiKeys bodyObject \<longrightarrow> safeLeaves bodyObject \<longrightarrow>
      generateBodyReplacements bodyObject vt = Inr r \<longrightarrow>
      formItems r = concat (map (formItemsEntry vt) (bodyVisits bodyObject))
      \<and> types r = concat (map typesEntry (bodyVisits bodyObject))
      \<and> interfaces r = concat (map interfacesEntry (bodyVisits bodyObject))
      \<and> zodSchema r = concat (map zodSchemaEntry (bodyVisits bodyObject))
      \<and> fields' r = join '', '' (concat (map fieldsEntry (bodyVisits bodyObject)))
      \<and> (bodyObject = [] \<longrightarrow> defaultValues r = [])
      \<and> (bodyObject \<noteq> [] \<longrightarrow>
          (\<exists>m. concat (map defaultValuesEntry (bodyVisits bodyObject)) = m @ '',\<newline>''
             \<and> defaultValues r = dropWhile isSpace m)))
   \<and> (\<not> list_ex (throwsAt vt) (bodyVisits bodyObject) \<longrightarrow>
      (\<exists>r. generateBodyReplacements bodyObject vt = Inr r))
   \<and> (list_all asciiKey (visits d pfx key v) \<longrightarrow> list_all safeLeaf (visits d pfx key v) \<longrightarrow>
      processField vt key v pfx st = Inr st' \<longrightarrow>
      formItems st' = formItems st @ concat (map (formItemsEntry vt) (visits d pfx key v))
      \<and> types st' = types st @ concat (map typesEntry (visits d pfx key v))
      \<and> defaultValues st'
          = defaultValues st @ concat (map defaultValuesEntry (visits d pfx key v))
      \<and> fields' st' = fields' st
      \<and> interfaces st' = interfaces st @ concat (map interfacesEntry (visits d pfx key v))
      \<and> zodSchema st' = zodSchema st @ concat (map zodSchemaEntry (visits d pfx key v))
      \<and> allFields st' = allFields st @ concat (map fieldsEntry (visits d pfx key v)))
   \<and> (\<exists>a b. t = a @ trim t @ b \<and> list_all isSpace a \<and> list_all isSpace b)
   \<and> (\<forall>c cs. trim t = c # cs \<longrightarrow> \<not> isSpace c)
   \<and> (\<forall>c cs. trim t = cs @ [c] \<longrightarrow> \<not> isSpace c)
   \<and> dropTrailingComma (t @ '','') = t
   \<and> (\<forall>c cs. t = cs @ [c] \<longrightarrow> c \<noteq> CHR '','' \<longrightarrow> dropTrailingComma t = t)
   \<and> dropTrailingComma [] = []"
proof (intro conjI impI)
  show "formItems newWalker = []" "types newWalker = []" "defaultValues newWalker = []"
    "fields' newWalker = []" "interfaces newWalker = []" "zodSchema newWalker = []"
    "allFields newWalker = []"
    by simp_all
next
  assume run: "generateBodyReplacements bodyObject vt = Inr r"
  show "formItems r = concat (map (formItemsEntry vt) (bodyVisits bodyObject))"
    by (rule generateBodyReplacements_result(1) [OF run])
  show "types r = concat (map typesEntry (bodyVisits bodyObject))"
    by (rule generateBodyReplacements_result(2) [OF run])
  show "interfaces r = concat (map interfacesEntry (bodyVisits bodyObject))"
    by (rule generateBodyReplacements_result(5) [OF run])
  show "zodSchema r = concat (map zodSchemaEntry (bodyVisits bodyObject))"
    by (rule generateBodyReplacements_result(6) [OF run])
  show "fields' r = join '', '' (concat (map fieldsEntry (bodyVisits bodyObject)))"
    by (rule generateBodyReplacements_result(4) [OF run])
  note dv = generateBodyReplacements_result(3) [OF run]
  { assume "bodyObject = []"
    then show "defaultValues r = []"
      using dv by (simp add: bodyVisits_empty trim_def dropTrailingComma_def) }
  { assume "bodyObject \<noteq> []"
    then obtain m where m: "concat (map defaultValuesEntry (bodyVisits bodyObject)) = m @ '',\<newline>''"
      and c: "CHR '':'' \<in> set m"
      using defaultValues_end by blast
    have "\<not> isSpace (CHR '':'')" by (simp add: isSpace_def)
    then have "dropTrailingComma (trim (m @ '',\<newline>'')) = dropWhile isSpace m"
      by (rule finalize_text [OF c])
    then have "defaultValues r = dropWhile isSpace m" using dv m by simp
    then show "\<exists>m. concat (map defaultValuesEntry (bodyVisits bodyObject)) = m @ '',\<newline>''
             \<and> defaultValues r = dropWhile isSpace m"
      using m by blast }
next
  assume "\<not> list_ex (throwsAt vt) (bodyVisits bodyObject)"
  then show "\<exists>r. generateBodyReplacements bodyObject vt = Inr r"
    by (rule generateBodyReplacements_returns)
next
  assume run: "processField vt key v pfx st = Inr st'"
  show "formItems st' = formItems st @ concat (map (formItemsEntry vt) (visits d pfx key v))"
    by (rule processField_result(1) [OF run])
  show "types st' = types st @ concat (map typesEntry (visits d pfx key v))"
    by (rule processField_result(2) [OF run])
  show "defaultValues st'
          = defaultValues st @ concat (map defaultValuesEntry (visits d pfx key v))"
    by (rule processField_result(3) [OF run])
  show "fields' st' = fields' st"
    by (rule processField_result(4) [OF run])
  show "interfaces st' = interfaces st @ concat (map interfacesEntry (visits d pfx key v))"
    by (rule processField_result(5) [OF run])
  show "zodSchema st' = zodSchema st @ concat (map zodSchemaEntry (visits d pfx key v))"
    by (rule processField_result(6) [OF run])
  show "allFields st' = allFields st @ concat (map fieldsEntry (visits d pfx key v))"
    by (rule processField_result(7) [OF run])
next
  have "list_all isSpace (takeWhile isSpace t)"
    "list_all isSpace (rev (takeWhile isSpace (rev (dropWhile isSpace t))))"
    by (auto simp: list_all_iff dest: set_takeWhileD)
  then show "\<exists>a b. t = a @ trim t @ b \<and> list_all isSpace a \<and> list_all isSpace b"
    using trim_parts [of t] by blast
  show "\<forall>c cs. trim t = c # cs \<longrightarrow> \<not> isSpace c"
    using trim_no_leading_space by blast
  show "\<forall>c cs. trim t = cs @ [c] \<longrightarrow> \<not> isSpace c"
    using trim_no_trailing_space by blast
  show "dropTrailingComma (t @ '','') = t"
    by (simp add: dropTrailingComma_def)
  show "\<forall>c cs. t = cs @ [c] \<longrightarrow> c \<noteq> CHR '','' \<longrightarrow> dropTrailingComma t = t"
    by (simp add: dropTrailingComma_def)
  show "dropTrailingComma [] = []"
    by (simp add: dropTrailingComma_def)
qed

text \<open>
  The body \<open>{"a":{"b":"input"},"c":"input"}\<close>: \<open>defaultValues\<close> loses the two spaces at its
  beginning and the comma and line break at its end, and keeps the comma and line break
  between its two entries.
\<close>

theorem buffers_finalized_once_witness:
  "asciiKeys [(''a'', JObj [(''b'', JStr ''input'')]), (''c'', JStr ''input'')]
   \<and> safeLeaves [(''a'', JObj [(''b'', JStr ''input'')]), (''c'', JStr ''input'')]
   \<and> [(''a'', JObj [(''b'', JStr ''input'')]), (''c'', JStr ''input'')] \<noteq> []
   \<and> (\<exists>r. generateBodyReplacements
         [(''a'', JObj [(''b'', JStr ''input'')]), (''c'', JStr ''input'')] (map_of []) = Inr r
       \<and> concat (map defaultValuesEntry
           (bodyVisits [(''a'', JObj [(''b'', JStr ''input'')]), (''c'', JStr ''input'')]))
           = ''  a: {\<newline>    b: '' @ emptyLiteral @ '',\<newline>  },\<newline>  c: '' @ emptyLiteral @ '',\<newline>''
       \<and> defaultValues r = ''a: {\<newline>    b: '' @ emptyLiteral @ '',\<newline>  },\<newline>  c: '' @ emptyLiteral
       \<and> types r = ''  a: A;\<newline>  c: string;\<newline>''
       \<and> zodSchema r = ''  a: z.object({\<newline>    b: z.string(),\<newline>  }),\<newline>'')"
proof -
  let ?body = "[(''a'', JObj [(''b'', JStr ''input'')]), (''c'', JStr ''input'')]"
  define g where "g = generateBodyReplacements ?body (map_of [])"
  have h1: "asciiKeys ?body" by code_simp
  have h2: "safeLeaves ?body" by code_simp
  have h4: "?body \<noteq> []" by simp
  have "g = Inr (projr g)" unfolding g_def by code_simp
  then have h3: "generateBodyReplacements ?body (map_of []) = Inr (projr g)" by (simp add: g_def)
  have raw: "concat (map defaultValuesEntry (bodyVisits ?body))
      = (''  a: {\<newline>    b: '' @ emptyLiteral @ '',\<newline>  },\<newline>  c: '' @ emptyLiteral) @ '',\<newline>''"
    by code_simp
  have t: "concat (map typesEntry (bodyVisits ?body)) = ''  a: A;\<newline>  c: string;\<newline>''"
    by code_simp
  have z: "concat (map zodSchemaEntry (bodyVisits ?body))
      = ''  a: z.object({\<newline>    b: z.string(),\<newline>  }),\<newline>''"
    by code_simp
  have dw: "dropWhile isSpace (''  a: {\<newline>    b: '' @ emptyLiteral @ '',\<newline>  },\<newline>  c: '' @ emptyLiteral)
      = ''a: {\<newline>    b: '' @ emptyLiteral @ '',\<newline>  },\<newline>  c: '' @ emptyLiteral"
    by code_simp
  note E = buffers_finalized_once [where bodyObject = ?body and vt = "map_of []" and r = "projr g",
      THEN conjunct2, THEN conjunct2, THEN conjunct2, THEN conjunct2, THEN conjunct2,
      THEN conjunct2, THEN conjunct2, THEN conjunct1, rule_format, OF h1 h2 h3]
  from E [THEN conjunct2, THEN conjunct2, THEN conjunct2, THEN conjunct2, THEN conjunct2,
      THEN conjunct2, rule_format, OF h4]
  obtain m where m: "concat (map defaultValuesEntry (bodyVisits ?body)) = m @ '',\<newline>''"
    and dv: "defaultValues (projr g) = dropWhile isSpace m"
    by blast
  have "m = ''  a: {\<newline>    b: '' @ emptyLiteral @ '',\<newline>  },\<newline>  c: '' @ emptyLiteral"
    using m unfolding raw by simp
  then have "defaultValues (projr g)
      = ''a: {\<newline>    b: '' @ emptyLiteral @ '',\<newline>  },\<newline>  c: '' @ emptyLiteral"
    using dv dw by simp
  moreover have "types (projr g) = ''  a: A;\<newline>  c: string;\<newline>''"
    using E [THEN conjunct2, THEN conjunct1] unfolding t .
  moreover have "zodSchema (projr g) = ''  a: z.object({\<newline>    b: z.string(),\<newline>  }),\<newline>''"
    using E [THEN conjunct2, THEN conjunct2, THEN conjunct2, THEN conjunct1] unfolding z .
  moreover have "concat (map defaultValuesEntry (bodyVisits ?body))
      = ''  a: {\<newline>    b: '' @ emptyLiteral @ '',\<newline>  },\<newline>  c: '' @ emptyLiteral @ '',\<newline>''"
    using raw by simp
  ultimately show ?thesis using h1 h2 h3 h4 by blast
qed

text \<open>
  For the body \<open>{"a":{"b":"input"}}\<close> the buffer \<open>zodSchema\<close> is returned with its trailing
  comma and line break: trimming it as \<open>defaultValues\<close> is trimmed would change it.
\<close>

theorem zodSchema_not_trimmed_counterexample:
  "map_sum id (\<lambda>r. (zodSchema r, dropTrailingComma (trim (zodSchema r)) = zodSchema r))
     (generateBodyReplacements [(''a'', JObj [(''b'', JStr ''input'')])] (map_of []))
   = Inr (''  a: z.object({\<newline>    b: z.string(),\<newline>  }),\<newline>'', False)"
  by code_simp

section \<open>Leaves without a snippet\<close>

lemma processField_unknown_tag:
  assumes "\<not> isGroup v" and "vt (jsToString v) = None"
    and "jsToString v \<notin> set objectPrototypeKeys"
  shows "processField vt key v pfx st
     = Inr (st\<lparr>types := types st @ types (leafDelta vt key v pfx),
               defaultValues := defaultValues st @ defaultValues (leafDelta vt key v pfx),
               allFields := allFields st @ [quoted (fullPathOf pfx key)]\<rparr>)"
proof -
  have u: "getProperty vt (jsToString v) = Undefined"
    using assms(2,3) by (simp add: getProperty_def)
  then have "leafMarkup vt key v pfx = []" by (simp add: leafMarkup_def)
  moreover have "getProperty vt (jsToString v) \<noteq> PrototypeMember" using u by simp
  ultimately show ?thesis
    using assms(1) by (simp add: processField_leaf processLeaf_returns appendWalker_def)
qed

lemma forEachEntry_unknown_tags:
  assumes "list_all (\<lambda>(k, v). \<not> isGroup v \<and> vt (jsToString v) = None
                        \<and> jsToString v \<notin> set objectPrototypeKeys) es"
  shows "\<exists>st'. forEachEntry (\<lambda>k v. processField vt k v pfx) es st = Inr st'
           \<and> formItems st' = formItems st"
  using assms
proof (induction es arbitrary: st)
  case Nil
  then show ?case by simp
next
  case (Cons e es)
  obtain k v where e: "e = (k, v)" by (cases e)
  have leaf: "\<not> isGroup v" "vt (jsToString v) = None" "jsToString v \<notin> set objectPrototypeKeys"
    using Cons.prems e by simp_all
  have rest: "list_all (\<lambda>(k, v). \<not> isGroup v \<and> vt (jsToString v) = None
                        \<and> jsToString v \<notin> set objectPrototypeKeys) es"
    using Cons.prems by simp
  let ?st1 = "st\<lparr>types := types st @ types (leafDelta vt k v pfx),
               defaultValues := defaultValues st @ defaultValues (leafDelta vt k v pfx),
               allFields := allFields st @ [quoted (fullPathOf pfx k)]\<rparr>"
  from Cons.IH [OF rest, of ?st1] obtain st' where
    "forEachEntry (\<lambda>k v. processField vt k v pfx) es ?st1 = Inr st'"
    "formItems st' = formItems ?st1" by blast
  then show ?case
    using e processField_unknown_tag [of v vt k pfx st, OF leaf] by simp
qed




section \<open>Tags that name a member of the prototype\<close>

text \<open>
  Claim C10. The expansion is not total: for the body \<open>{"x":"constructor"}\<close> the lookup of the
  snippet finds the member \<open>constructor\<close> of \<open>Object.prototype\<close>, and the call of \<open>replace\<close> on it
  throws a \<open>TypeError\<close>.
\<close>

theorem prototype_member_tag_throws:
  "generateBodyReplacements [(''x'', JStr ''constructor'')] (map_of [(''input'', ''<Input/>'')])
     = Inl (TypeError ''template.replace is not a function'')"
  by code_simp

section \<open>Failures of a generation run\<close>

lemma processFile_throws:
  assumes "processFile w template mn fop br dry fmt entry result = Inl (e, r)"
  shows "success r = success result \<and> errors r = errors result \<and> files r = files result"
  using assms unfolding processFile_def Let_def
  by (auto split: prod.splits sum.splits option.splits bool.splits if_splits error.splits)

lemma processFile_returns:
  assumes "processFile w template mn fop br dry fmt (fileName, relativePath) result = Inr r"
  shows "success r = success result \<and> errors r = errors result
       \<and> files r = files result
           @ (if skipped w template relativePath then [] else [replacePlaceholders relativePath mn])"
  using assms unfolding processFile_def Let_def skipped_def
  by (auto split: prod.splits sum.splits option.splits bool.splits if_splits error.splits)

lemma processFiles_returns:
  assumes "processFiles (processFile w template mn fop br dry fmt) es result = Inr r"
  shows "success r = success result \<and> errors r = errors result
       \<and> files r = files result @ listed w template mn es"
  using assms
proof (induction es arbitrary: result)
  case Nil
  then show ?case by (simp add: listed_def)
next
  case (Cons entry es)
  obtain fileName relativePath where entry: "entry = (fileName, relativePath)" by (cases entry)
  show ?case
  proof (cases "processFile w template mn fop br dry fmt entry result")
    case (Inl thrown)
    then show ?thesis using Cons.prems by simp
  next
    case (Inr r1)
    then have rest: "processFiles (processFile w template mn fop br dry fmt) es r1 = Inr r"
      using Cons.prems by simp
    have one: "success r1 = success result \<and> errors r1 = errors result
       \<and> files r1 = files result
           @ (if skipped w template relativePath then [] else [replacePlaceholders relativePath mn])"
      using Inr unfolding entry by (rule processFile_returns)
    have "listed w template mn (entry # es)
        = (if skipped w template relativePath then [] else [replacePlaceholders relativePath mn])
          @ listed w template mn es"
      by (simp add: listed_def entry)
    then show ?thesis using Cons.IH [OF rest] one by simp
  qed
qed

lemma processFiles_stops:
  assumes "processFiles f completed result = Inr r1" and "f entry r1 = Inl thrown"
  shows "processFiles f (completed @ entry # rest) result = Inl thrown"
  using assms by (induction completed arbitrary: result) (auto split: sum.splits)

lemma processFiles_throws:
  assumes "processFiles (processFile w template mn fop br dry fmt) es result = Inl (e, r)"
  shows "success r = success result \<and> errors r = errors result"
  using assms
proof (induction es arbitrary: result)
  case Nil
  then show ?case by simp
next
  case (Cons entry es)
  obtain fileName relativePath where entry: "entry = (fileName, relativePath)" by (cases entry)
  show ?case
  proof (cases "processFile w template mn fop br dry fmt entry result")
    case (Inl thrown)
    then have "processFile w template mn fop br dry fmt entry result = Inl (e, r)"
      using Cons.prems by simp
    then show ?thesis using processFile_throws by blast
  next
    case (Inr r1)
    then have "processFiles (processFile w template mn fop br dry fmt) es r1 = Inl (e, r)"
      using Cons.prems by simp
    then have "success r = success r1 \<and> errors r = errors r1" by (rule Cons.IH)
    moreover have "success r1 = success result \<and> errors r1 = errors result"
      using Inr processFile_returns unfolding entry by blast
    ultimately show ?thesis by simp
  qed
qed

lemma tryGenerate_throws:
  assumes "tryGenerate w ts tn mn op bo dry fmt result = Inl (e, r)"
  shows "success r = success result \<and> errors r = errors result"
  using assms unfolding tryGenerate_def Let_def
  by (auto split: option.splits sum.splits if_splits prod.splits error.splits
      dest: processFiles_throws processFiles_returns)

lemma tryGenerate_loop:
  assumes "ts tn = Some template" and "pathExists w (Some (path template))"
    and "beforeGenerate w = None" and "expansionOf bo template = Inr br"
  shows "tryGenerate w ts tn mn op bo dry fmt result =
           (case processFiles
                   (processFile w template mn (finalOutputPathOf op template) br dry fmt)
                   (globFiles w (path template)) result of
              Inl thrown \<Rightarrow> Inl thrown
            | Inr result1 \<Rightarrow>
                (case afterGenerate w of Some e \<Rightarrow> Inl (e, result1) | None \<Rightarrow> Inr result1))"
  using assms unfolding tryGenerate_def Let_def expansionOf_def hasTemplate_def
  by (auto split: option.splits sum.splits prod.splits error.splits)

lemma failed_result:
  assumes "success r = True" and "errors r = []" and "files r = fs"
  shows "r\<lparr>success := False, errors := errors r @ [m]\<rparr>
       = \<lparr>success = False, files = fs, errors = [m], warnings = warnings r\<rparr>"
  using assms by (cases r) simp




section \<open>Global replacement on texts with placeholders\<close>

lemma getSubstitution_dollarFree:
  "dollarFree repl \<Longrightarrow> getSubstitution matched pre post repl = repl"
  by (induction matched pre post repl rule: getSubstitution.induct)
     (auto simp: dollarFree_def)

lemma replaceFrom_plainText:
  assumes "plainText s"
  shows "replaceFrom (''{{'' @ a @ ''}}'') repl pre (s @ rest)
       = s @ replaceFrom (''{{'' @ a @ ''}}'') repl (pre @ s) rest"
  using assms
proof (induction s arbitrary: pre rule: plainText.induct)
  case 1
  then show ?case by simp
next
  case (2 c)
  then show ?case by simp
next
  case (3 c d r)
  have "replaceFrom (''{{'' @ a @ ''}}'') repl (pre @ [c]) ((d # r) @ rest)
      = (d # r) @ replaceFrom (''{{'' @ a @ ''}}'') repl ((pre @ [c]) @ d # r) rest"
    using "3.IH" "3.prems" by simp
  then show ?case using "3.prems" by auto
qed

lemma replaceFrom_match:
  assumes "pat \<noteq> []"
  shows "replaceFrom pat repl pre (pat @ rest)
       = getSubstitution pat pre rest repl @ replaceFrom pat repl (pre @ pat) rest"
proof -
  obtain c cs where eq: "pat @ rest = c # cs" using assms by (cases pat) auto
  have p: "prefix pat (c # cs)" unfolding eq [symmetric] by simp
  have d: "drop (length pat) (c # cs) = rest" unfolding eq [symmetric] by simp
  have "replaceFrom pat repl pre (c # cs)
      = getSubstitution pat pre rest repl @ replaceFrom pat repl (pre @ pat) rest"
    using assms p by (simp only: replaceFrom.simps d if_True if_False)
  then show ?thesis unfolding eq .
qed

lemma token_body_unique:
  assumes "braceFree a" and "braceFree b" and "prefix (a @ ''}}'') (b @ ''}}'' @ rest)"
  shows "a = b"
  using assms
proof (induction a arbitrary: b)
  case Nil
  then show ?case by (cases b) (auto simp: braceFree_def)
next
  case (Cons x xs)
  show ?case
  proof (cases b)
    case Nil
    then show ?thesis using Cons.prems by (auto simp: braceFree_def)
  next
    case (Cons y ys)
    then have "xs = ys" using Cons.prems Cons.IH [of ys] by (auto simp: braceFree_def)
    then show ?thesis using Cons Cons.prems by simp
  qed
qed

lemma braceFree_plainText: "CHR ''{'' \<notin> set s \<Longrightarrow> plainText s"
  by (induction s rule: plainText.induct) auto

lemma replaceFrom_other_token:
  assumes a: "braceFree a" and b: "braceFree b" and ne: "a \<noteq> b"
  shows "replaceFrom (''{{'' @ a @ ''}}'') repl pre ((''{{'' @ b @ ''}}'') @ rest)
       = (''{{'' @ b @ ''}}'') @ replaceFrom (''{{'' @ a @ ''}}'') repl (pre @ ''{{'' @ b @ ''}}'') rest"
proof -
  let ?pat = "''{{'' @ a @ ''}}''"
  have no0: "\<not> prefix ?pat ((''{{'' @ b @ ''}}'') @ rest)"
    using token_body_unique [OF a b, of rest] ne by auto
  have no1: "\<not> prefix ?pat (CHR ''{'' # (b @ ''}}'') @ rest)"
    using b by (cases b) (auto simp: braceFree_def)
  have tail: "plainText (b @ ''}}'')"
    using b by (intro braceFree_plainText) (simp add: braceFree_def)
  have "replaceFrom ?pat repl pre ((''{{'' @ b @ ''}}'') @ rest)
      = CHR ''{'' # replaceFrom ?pat repl (pre @ ''{'') (CHR ''{'' # (b @ ''}}'') @ rest)"
    using no0 by simp
  also have "replaceFrom ?pat repl (pre @ ''{'') (CHR ''{'' # (b @ ''}}'') @ rest)
      = CHR ''{'' # replaceFrom ?pat repl ((pre @ ''{'') @ ''{'') ((b @ ''}}'') @ rest)"
    using no1 by simp
  also have "replaceFrom ?pat repl ((pre @ ''{'') @ ''{'') ((b @ ''}}'') @ rest)
      = (b @ ''}}'') @ replaceFrom ?pat repl (((pre @ ''{'') @ ''{'') @ b @ ''}}'') rest"
    by (rule replaceFrom_plainText [OF tail])
  finally show ?thesis by simp
qed

lemma replaceFrom_render:
  assumes "wellFormed ps" and "braceFree a" and "dollarFree v"
  shows "replaceFrom (''{{'' @ a @ ''}}'') v pre (render ps) = render (map (substToken a v) ps)"
  using assms(1)
proof (induction ps arbitrary: pre)
  case Nil
  then show ?case by (simp add: render_def)
next
  case (Cons p ps)
  have wf: "wellFormed ps" and wp: "wellFormedPiece p"
    using Cons.prems by (simp_all add: wellFormed_def)
  have IH: "replaceFrom (''{{'' @ a @ ''}}'') v pre' (render ps) = render (map (substToken a v) ps)"
    for pre'
    by (rule Cons.IH [OF wf])
  show ?case
  proof (cases p)
    case (Text s)
    then have "plainText s" using wp by simp
    from replaceFrom_plainText [OF this, of a v pre "render ps"]
    show ?thesis using Text IH by (simp add: render_def)
  next
    case (Token b)
    then have b: "braceFree b" using wp by simp
    show ?thesis
    proof (cases "b = a")
      case True
      have "replaceFrom (''{{'' @ a @ ''}}'') v pre ((''{{'' @ a @ ''}}'') @ render ps)
          = getSubstitution (''{{'' @ a @ ''}}'') pre (render ps) v
            @ replaceFrom (''{{'' @ a @ ''}}'') v (pre @ ''{{'' @ a @ ''}}'') (render ps)"
        by (rule replaceFrom_match) simp
      then show ?thesis
        using Token True IH getSubstitution_dollarFree [OF assms(3)]
        by (simp add: render_def)
    next
      case False
      then have "a \<noteq> b" by simp
      from replaceFrom_other_token [OF assms(2) b this, of v pre "render ps"]
      show ?thesis using Token False IH by (simp add: render_def)
    qed
  qed
qed

lemma replaceAll_render:
  assumes "wellFormed ps" and "braceFree a" and "dollarFree v"
  shows "replaceAll (''{{'' @ a @ ''}}'') v (render ps) = render (map (substToken a v) ps)"
  unfolding replaceAll_def by (rule replaceFrom_render [OF assms])

lemma wellFormed_substToken:
  assumes "wellFormed ps" and "plainText v"
  shows "wellFormed (map (substToken a v) ps)"
proof -
  have "wellFormedPiece (substToken a v p)" if "wellFormedPiece p" for p
    using that assms(2) by (cases p) simp_all
  then show ?thesis using assms(1) by (simp add: wellFormed_def list_all_iff)
qed

section \<open>Module-name placeholders\<close>

lemma pass:
  assumes "wellFormed ps" and "braceFree a" and "dollarFree v" and "plainText v"
    and "pat = ''{{'' @ a @ ''}}''"
  shows "replaceAll pat v (render ps) = render (map (substToken a v) ps)"
    and "wellFormed (map (substToken a v) ps)"
  using replaceAll_render [OF assms(1-3)] wellFormed_substToken [OF assms(1,4)] assms(5)
  by simp_all

lemma toUpperChar_cases: "toUpperChar c = c \<or> toUpperChar c \<in> set upperLetters"
  unfolding toUpperChar_def
  by (cases "map_of (zip lowerLetters upperLetters) c")
     (auto dest!: map_of_SomeD set_zip_rightD)

lemma toLowerChar_cases: "toLowerChar c = c \<or> toLowerChar c \<in> set lowerLetters"
  unfolding toLowerChar_def
  by (cases "map_of (zip upperLetters lowerLetters) c")
     (auto dest!: map_of_SomeD set_zip_rightD)

lemma toUpperChar_special:
  "toUpperChar c = CHR ''$'' \<Longrightarrow> c = CHR ''$''"
  "toUpperChar c = CHR ''{'' \<Longrightarrow> c = CHR ''{''"
  using toUpperChar_cases [of c] by (auto simp: upperLetters_def)

lemma toLowerChar_special:
  "toLowerChar c = CHR ''$'' \<Longrightarrow> c = CHR ''$''"
  "toLowerChar c = CHR ''{'' \<Longrightarrow> c = CHR ''{''"
  using toLowerChar_cases [of c] by (auto simp: lowerLetters_def)

lemma separateWords_set: "set (separateWords sep s) \<subseteq> insert sep (set s)"
  by (induction sep s rule: separateWords.induct) auto

lemma capitalize_set: "set (capitalize t) \<subseteq> set t \<union> set upperLetters"
  using toUpperChar_cases by (cases t) auto

lemma toCamelCase_set: "set (toCamelCase t) \<subseteq> set t \<union> set lowerLetters"
  using toLowerChar_cases by (cases t) auto

lemma toUpperCase_set: "set (toUpperCase t) \<subseteq> set t \<union> set upperLetters"
proof
  fix x assume "x \<in> set (toUpperCase t)"
  then obtain c where c: "c \<in> set t" "x = toUpperChar c" by (auto simp: toUpperCase_def)
  then show "x \<in> set t \<union> set upperLetters" using toUpperChar_cases [of c] by auto
qed

lemma toLowerCase_set: "set (toLowerCase t) \<subseteq> set t \<union> set lowerLetters"
proof
  fix x assume "x \<in> set (toLowerCase t)"
  then obtain c where c: "c \<in> set t" "x = toLowerChar c" by (auto simp: toLowerCase_def)
  then show "x \<in> set t \<union> set lowerLetters" using toLowerChar_cases [of c] by auto
qed

lemma toKebabCase_set: "set (toKebabCase t) \<subseteq> set t \<union> set lowerLetters \<union> {CHR ''-''}"
  using toLowerCase_set [of "separateWords (CHR ''-'') t"] separateWords_set [of "CHR ''-''" t]
  unfolding toKebabCase_def by blast

lemma toSnakeCase_set: "set (toSnakeCase t) \<subseteq> set t \<union> set lowerLetters \<union> {CHR ''_''}"
  using toLowerCase_set [of "separateWords (CHR ''_'') t"] separateWords_set [of "CHR ''_''" t]
  unfolding toSnakeCase_def by blast

lemma letters_special:
  "CHR ''$'' \<notin> set upperLetters" "CHR ''{'' \<notin> set upperLetters"
  "CHR ''$'' \<notin> set lowerLetters" "CHR ''{'' \<notin> set lowerLetters"
  by (simp_all add: upperLetters_def lowerLetters_def)

lemma clean_values:
  assumes "CHR ''$'' \<notin> set t" and "CHR ''{'' \<notin> set t"
  shows "CHR ''$'' \<notin> set (capitalize t)" "CHR ''{'' \<notin> set (capitalize t)"
    "CHR ''$'' \<notin> set (toCamelCase t)" "CHR ''{'' \<notin> set (toCamelCase t)"
    "CHR ''$'' \<notin> set (toUpperCase t)" "CHR ''{'' \<notin> set (toUpperCase t)"
    "CHR ''$'' \<notin> set (toKebabCase t)" "CHR ''{'' \<notin> set (toKebabCase t)"
    "CHR ''$'' \<notin> set (toSnakeCase t)" "CHR ''{'' \<notin> set (toSnakeCase t)"
proof -
  show "CHR ''$'' \<notin> set (capitalize t)" "CHR ''{'' \<notin> set (capitalize t)"
    using assms capitalize_set [of t] letters_special by blast+
  show "CHR ''$'' \<notin> set (toCamelCase t)" "CHR ''{'' \<notin> set (toCamelCase t)"
    using assms toCamelCase_set [of t] letters_special by blast+
  show "CHR ''$'' \<notin> set (toUpperCase t)" "CHR ''{'' \<notin> set (toUpperCase t)"
    using assms toUpperCase_set [of t] letters_special by blast+
  have m: "CHR ''$'' \<noteq> CHR ''-''" "CHR ''{'' \<noteq> CHR ''-''"
    "CHR ''$'' \<noteq> CHR ''_''" "CHR ''{'' \<noteq> CHR ''_''"
    by simp_all
  show "CHR ''$'' \<notin> set (toKebabCase t)" "CHR ''{'' \<notin> set (toKebabCase t)"
    using assms toKebabCase_set [of t] letters_special m by blast+
  show "CHR ''$'' \<notin> set (toSnakeCase t)" "CHR ''{'' \<notin> set (toSnakeCase t)"
    using assms toSnakeCase_set [of t] letters_special m by blast+
qed

lemma upper_not_lower: "isUpperAZ c \<Longrightarrow> \<not> isLowerAlnum c"
  by (auto simp: isUpperAZ_def isLowerAlnum_def upperLetters_def lowerLetters_def digits_def)

lemma separateWords_boundaries: "separateWords sep s = insertAtBoundaries sep s"
proof (induction sep s rule: separateWords.induct)
  case (1 sep a b rest)
  show ?case
  proof (cases "isLowerAlnum a \<and> isUpperAZ b")
    case True
    then have nb: "\<not> isLowerAlnum b" by (simp add: upper_not_lower)
    have "insertAtBoundaries sep (b # rest) = b # insertAtBoundaries sep rest"
      using nb by (cases rest) simp_all
    then show ?thesis using True "1.IH"(1) by simp
  next
    case False
    then show ?thesis using "1.IH"(2) by auto
  qed
qed simp_all

lemma capitalize_firstUpperCased: "capitalize t = firstUpperCased t"
  by (cases t) (simp_all add: toUpperCase_def)

lemma toCamelCase_firstLowerCased: "toCamelCase t = firstLowerCased t"
  by (cases t) (simp_all add: toLowerCase_def)

lemma toKebabCase_boundaries: "toKebabCase t = toLowerCase (insertAtBoundaries (CHR ''-'') t)"
  by (simp add: toKebabCase_def separateWords_boundaries)

lemma toSnakeCase_boundaries: "toSnakeCase t = toLowerCase (insertAtBoundaries (CHR ''_'') t)"
  by (simp add: toSnakeCase_def separateWords_boundaries)

lemma replacePlaceholders_render:
  assumes wf: "wellFormed ps" and d: "dollarFree t" and b: "CHR ''{'' \<notin> set t"
  shows "replacePlaceholders (render ps) t = concat (map (expandName t) ps)"
proof -
  have d': "CHR ''$'' \<notin> set t" using d by (simp add: dollarFree_def)
  note c = clean_values [OF d' b]
  let ?p1 = "map (substToken ''name'' t) ps"
  let ?p2 = "map (substToken ''Name'' (capitalize t)) ?p1"
  let ?p3 = "map (substToken ''NAME'' (toUpperCase t)) ?p2"
  let ?p4 = "map (substToken ''name-kebab'' (toKebabCase t)) ?p3"
  let ?p5 = "map (substToken ''name_snake'' (toSnakeCase t)) ?p4"
  let ?p6 = "map (substToken ''name.camel'' (toCamelCase t)) ?p5"
  let ?p7 = "map (substToken ''name.pascal'' (capitalize t)) ?p6"
  have s1: "replaceAll ''{{name}}'' t (render ps) = render ?p1" and w1: "wellFormed ?p1"
    by (rule pass [OF wf]; simp add: braceFree_def dollarFree_def braceFree_plainText d' b)+
  have s2: "replaceAll ''{{Name}}'' (capitalize t) (render ?p1) = render ?p2"
    and w2: "wellFormed ?p2"
    by (rule pass [OF w1]; simp add: braceFree_def dollarFree_def braceFree_plainText c del: capitalize.simps)+
  have s3: "replaceAll ''{{NAME}}'' (toUpperCase t) (render ?p2) = render ?p3"
    and w3: "wellFormed ?p3"
    by (rule pass [OF w2]; simp add: braceFree_def dollarFree_def braceFree_plainText c)+
  have s4: "replaceAll ''{{name-kebab}}'' (toKebabCase t) (render ?p3) = render ?p4"
    and w4: "wellFormed ?p4"
    by (rule pass [OF w3]; simp add: braceFree_def dollarFree_def braceFree_plainText c)+
  have s5: "replaceAll ''{{name_snake}}'' (toSnakeCase t) (render ?p4) = render ?p5"
    and w5: "wellFormed ?p5"
    by (rule pass [OF w4]; simp add: braceFree_def dollarFree_def braceFree_plainText c)+
  have s6: "replaceAll ''{{name.camel}}'' (toCamelCase t) (render ?p5) = render ?p6"
    and w6: "wellFormed ?p6"
    by (rule pass [OF w5]; simp add: braceFree_def dollarFree_def braceFree_plainText c)+
  have s7: "replaceAll ''{{name.pascal}}'' (capitalize t) (render ?p6) = render ?p7"
    by (rule pass [OF w6]; simp add: braceFree_def dollarFree_def braceFree_plainText c del: capitalize.simps)
  have piece: "renderPiece
        (substToken ''name.pascal'' (capitalize t)
          (substToken ''name.camel'' (toCamelCase t)
            (substToken ''name_snake'' (toSnakeCase t)
              (substToken ''name-kebab'' (toKebabCase t)
                (substToken ''NAME'' (toUpperCase t)
                  (substToken ''Name'' (capitalize t)
                    (substToken ''name'' t p)))))))
      = expandName t p" for p
    by (cases p)
       (simp_all add: capitalize_firstUpperCased [symmetric] toCamelCase_firstLowerCased [symmetric]
          toKebabCase_boundaries [symmetric] toSnakeCase_boundaries [symmetric]
          del: capitalize.simps toCamelCase.simps)
  have "replacePlaceholders (render ps) t = render ?p7"
    unfolding replacePlaceholders_def by (simp only: s1 s2 s3 s4 s5 s6 s7)
  also have "\<dots> = concat (map (expandName t) ps)"
    by (simp add: render_def comp_def piece del: capitalize.simps expandName.simps substToken.simps)
  finally show ?thesis .
qed

text \<open>
  Claim C4. In a text in which every \<open>{{\<close> opens a token \<open>{{b}}\<close> whose body has no brace, and
  for an ASCII name that contains neither \<open>$\<close> nor \<open>{\<close>, every occurrence of \<open>{{name}}\<close> is
  replaced by the name, of \<open>{{Name}}\<close> and \<open>{{name.pascal}}\<close> by the name with only its first
  character in upper case, of \<open>{{NAME}}\<close> by the name in upper case, of \<open>{{name.camel}}\<close> by the
  name with only its first character in lower case, of \<open>{{name-kebab}}\<close> and \<open>{{name_snake}}\<close>
  by the name in lower case with a hyphen or an underscore at every boundary between a
  lower-case letter or digit and an upper-case letter; the placeholders are matched with
  their exact case, and every other token and all other text stay as they are. The upper
  case of a text has \<open>A\<close> to \<open>Z\<close> for \<open>a\<close> to \<open>z\<close> and every other character as it is, and the lower
  case has \<open>a\<close> to \<open>z\<close> for \<open>A\<close> to \<open>Z\<close>.
\<close>

theorem module_name_placeholders:
  "(wellFormed ps \<longrightarrow> dollarFree t \<longrightarrow> CHR ''{'' \<notin> set t \<longrightarrow> isAscii t \<longrightarrow>
      replacePlaceholders (render ps) t = concat (map (expandName t) ps))
   \<and> toUpperCase ''abcdefghijklmnopqrstuvwxyz'' = ''ABCDEFGHIJKLMNOPQRSTUVWXYZ''
   \<and> toLowerCase ''ABCDEFGHIJKLMNOPQRSTUVWXYZ'' = ''abcdefghijklmnopqrstuvwxyz''
   \<and> (set t \<inter> set ''abcdefghijklmnopqrstuvwxyz'' = {} \<longrightarrow> toUpperCase t = t)
   \<and> (set t \<inter> set ''ABCDEFGHIJKLMNOPQRSTUVWXYZ'' = {} \<longrightarrow> toLowerCase t = t)
   \<and> toUpperCase (s @ t) = toUpperCase s @ toUpperCase t
   \<and> toLowerCase (s @ t) = toLowerCase s @ toLowerCase t"
proof (intro conjI impI)
  assume "wellFormed ps" and "dollarFree t" and "CHR ''{'' \<notin> set t"
  then show "replacePlaceholders (render ps) t = concat (map (expandName t) ps)"
    by (rule replacePlaceholders_render)
next
  show "toUpperCase ''abcdefghijklmnopqrstuvwxyz'' = ''ABCDEFGHIJKLMNOPQRSTUVWXYZ''"
    by code_simp
  show "toLowerCase ''ABCDEFGHIJKLMNOPQRSTUVWXYZ'' = ''abcdefghijklmnopqrstuvwxyz''"
    by code_simp
  show "toUpperCase (s @ t) = toUpperCase s @ toUpperCase t"
    by (simp add: toUpperCase_def)
  show "toLowerCase (s @ t) = toLowerCase s @ toLowerCase t"
    by (simp add: toLowerCase_def)
next
  assume none: "set t \<inter> set ''abcdefghijklmnopqrstuvwxyz'' = {}"
  have "toUpperChar c = c" if "c \<in> set t" for c
  proof -
    have "c \<notin> set lowerLetters" using none that by (auto simp: lowerLetters_def)
    then have "map_of (zip lowerLetters upperLetters) c = None"
      by (simp add: map_of_eq_None_iff lowerLetters_def upperLetters_def)
    then show ?thesis by (simp add: toUpperChar_def)
  qed
  then show "toUpperCase t = t" by (simp add: toUpperCase_def map_idI)
next
  assume none: "set t \<inter> set ''ABCDEFGHIJKLMNOPQRSTUVWXYZ'' = {}"
  have "toLowerChar c = c" if "c \<in> set t" for c
  proof -
    have "c \<notin> set upperLetters" using none that by (auto simp: upperLetters_def)
    then have "map_of (zip upperLetters lowerLetters) c = None"
      by (simp add: map_of_eq_None_iff lowerLetters_def upperLetters_def)
    then show ?thesis by (simp add: toLowerChar_def)
  qed
  then show "toLowerCase t = t" by (simp add: toLowerCase_def map_idI)
qed

text \<open>
  A text with the seven placeholders and another token for the name \<open>userProfile9\<close>, and three
  placeholders for the name \<open>HTTPServer2Go\<close>.
\<close>

theorem module_name_placeholders_witness:
  "wellFormed [Text ''class '', Token ''Name'', Text '' { '', Token ''name'', Text '': '',
               Token ''name.pascal'', Text ''; } // '', Token ''name.camel'', Text '' '',
               Token ''NAME'', Text '' '', Token ''name-kebab'', Text '' '', Token ''name_snake'',
               Text '' '', Token ''name.upper'']
   \<and> dollarFree ''userProfile9'' \<and> CHR ''{'' \<notin> set ''userProfile9'' \<and> isAscii ''userProfile9''
   \<and> replacePlaceholders
         ''class {{Name}} { {{name}}: {{name.pascal}}; } // {{name.camel}} {{NAME}} {{name-kebab}} {{name_snake}} {{name.upper}}''
         ''userProfile9''
       = ''class UserProfile9 { userProfile9: UserProfile9; } // userProfile9 USERPROFILE9 user-profile9 user_profile9 {{name.upper}}''
   \<and> wellFormed [Token ''name.camel'', Text '' '', Token ''Name'', Text '' '', Token ''name-kebab'']
   \<and> dollarFree ''HTTPServer2Go'' \<and> CHR ''{'' \<notin> set ''HTTPServer2Go'' \<and> isAscii ''HTTPServer2Go''
   \<and> replacePlaceholders ''{{name.camel}} {{Name}} {{name-kebab}}'' ''HTTPServer2Go''
       = ''hTTPServer2Go HTTPServer2Go httpserver2-go''"
proof -
  let ?ps = "[Text ''class '', Token ''Name'', Text '' { '', Token ''name'', Text '': '',
               Token ''name.pascal'', Text ''; } // '', Token ''name.camel'', Text '' '',
               Token ''NAME'', Text '' '', Token ''name-kebab'', Text '' '', Token ''name_snake'',
               Text '' '', Token ''name.upper'']"
  let ?qs = "[Token ''name.camel'', Text '' '', Token ''Name'', Text '' '', Token ''name-kebab'']"
  have h1: "wellFormed ?ps" by code_simp
  have h2: "dollarFree ''userProfile9''" by code_simp
  have h3: "CHR ''{'' \<notin> set ''userProfile9''" by simp
  have h4: "isAscii ''userProfile9''" by code_simp
  have r: "render ?ps
      = ''class {{Name}} { {{name}}: {{name.pascal}}; } // {{name.camel}} {{NAME}} {{name-kebab}} {{name_snake}} {{name.upper}}''"
    by code_simp
  have e: "concat (map (expandName ''userProfile9'') ?ps)
      = ''class UserProfile9 { userProfile9: UserProfile9; } // userProfile9 USERPROFILE9 user-profile9 user_profile9 {{name.upper}}''"
    by code_simp
  have k1: "wellFormed ?qs" by code_simp
  have k2: "dollarFree ''HTTPServer2Go''" by code_simp
  have k3: "CHR ''{'' \<notin> set ''HTTPServer2Go''" by simp
  have k4: "isAscii ''HTTPServer2Go''" by code_simp
  have r': "render ?qs = ''{{name.camel}} {{Name}} {{name-kebab}}''"
    by code_simp
  have e': "concat (map (expandName ''HTTPServer2Go'') ?qs)
      = ''hTTPServer2Go HTTPServer2Go httpserver2-go''"
    by code_simp
  note A = module_name_placeholders [THEN conjunct1, rule_format, OF h1 h2 h3 h4]
  note B = module_name_placeholders [THEN conjunct1, rule_format, OF k1 k2 k3 k4]
  show ?thesis using h1 h2 h3 h4 k1 k2 k3 k4 A B unfolding r e r' e' by simp
qed

text \<open>
  A name that contains a placeholder is scanned again by the later passes, and so is a
  placeholder that an inserted name completes; a name that contains \<open>$$\<close> is inserted with one
  \<open>$\<close>.
\<close>

theorem module_name_rescanned_counterexample:
  "replacePlaceholders ''{{name}}'' ''x{{NAME}}'' = ''xX{{NAME}}''
   \<and> replacePlaceholders ''{{name}}'' ''x{{NAME}}'' \<noteq> ''x{{NAME}}''
   \<and> replacePlaceholders ''{{{{name}}}}'' ''NAME'' = ''NAME''
   \<and> replacePlaceholders ''{{name}}'' ''a$$b'' = ''a$b''
   \<and> replacePlaceholders ''{{name}}'' ''a$$b'' \<noteq> ''a$$b''"
  by code_simp

section \<open>Body placeholders\<close>

lemma wellFormed_substKey:
  assumes "wellFormed ps" and "plainText v"
  shows "wellFormed (map (substKey key v) ps)"
proof -
  have "wellFormedPiece (substKey key v p)" if "wellFormedPiece p" for p
    using that assms(2) by (cases p) simp_all
  then show ?thesis using assms(1) by (simp add: wellFormed_def list_all_iff)
qed

lemma passes_of_key:
  assumes wf: "wellFormed ps" and k: "braceFree key" and d: "dollarFree v" and p: "plainText v"
  shows "foldl (\<lambda>result placeholder. replaceAll placeholder v result) (render ps) (placeholders key)
       = render (map (substKey key v) ps)"
proof -
  let ?b1 = "''body:'' @ key" and ?b2 = "''body: '' @ key"
  let ?b3 = "'' body:'' @ key @ '' ''" and ?b4 = "'' body: '' @ key @ '' ''"
  let ?p1 = "map (substToken ?b1 v) ps"
  let ?p2 = "map (substToken ?b2 v) ?p1"
  let ?p3 = "map (substToken ?b3 v) ?p2"
  let ?p4 = "map (substToken ?b4 v) ?p3"
  have bf: "braceFree ?b1" "braceFree ?b2" "braceFree ?b3" "braceFree ?b4"
    using k by (simp_all add: braceFree_def)
  have s1: "replaceAll (''{{body:'' @ key @ ''}}'') v (render ps) = render ?p1"
    and w1: "wellFormed ?p1"
    by (rule pass [OF wf bf(1) d p]; simp)+
  have s2: "replaceAll (''{{body: '' @ key @ ''}}'') v (render ?p1) = render ?p2"
    and w2: "wellFormed ?p2"
    by (rule pass [OF w1 bf(2) d p]; simp)+
  have s3: "replaceAll (''{{ body:'' @ key @ '' }}'') v (render ?p2) = render ?p3"
    and w3: "wellFormed ?p3"
    by (rule pass [OF w2 bf(3) d p]; simp)+
  have s4: "replaceAll (''{{ body: '' @ key @ '' }}'') v (render ?p3) = render ?p4"
    by (rule pass [OF w3 bf(4) d p]; simp)
  have piece: "substToken ?b4 v (substToken ?b3 v (substToken ?b2 v (substToken ?b1 v q)))
      = substKey key v q" for q
    by (cases q) (simp_all add: spellings_def)
  have "foldl (\<lambda>result placeholder. replaceAll placeholder v result) (render ps) (placeholders key)
      = render ?p4"
    unfolding placeholders_def by (simp only: foldl.simps s1 s2 s3 s4)
  also have "?p4 = map (substKey key v) ps"
    by (simp only: map_map comp_def piece)
  finally show ?thesis .
qed

lemma replaceBodyPlaceholders_render:
  assumes wf: "wellFormed ps"
    and clean: "list_all (\<lambda>(key, v). dollarFree v \<and> plainText v) (replacementEntries r)"
  shows "replaceBodyPlaceholders (render ps) r = concat (map (expandBody r) ps)"
proof -
  have c: "dollarFree (formItems r)" "plainText (formItems r)"
    "dollarFree (types r)" "plainText (types r)"
    "dollarFree (defaultValues r)" "plainText (defaultValues r)"
    "dollarFree (fields' r)" "plainText (fields' r)"
    "dollarFree (interfaces r)" "plainText (interfaces r)"
    "dollarFree (zodSchema r)" "plainText (zodSchema r)"
    using clean by (simp_all add: replacementEntries_def)
  let ?p1 = "map (substKey ''formItems'' (formItems r)) ps"
  let ?p2 = "map (substKey ''types'' (types r)) ?p1"
  let ?p3 = "map (substKey ''defaultValues'' (defaultValues r)) ?p2"
  let ?p4 = "map (substKey ''fields'' (fields' r)) ?p3"
  let ?p5 = "map (substKey ''interfaces'' (interfaces r)) ?p4"
  let ?p6 = "map (substKey ''zodSchema'' (zodSchema r)) ?p5"
  have w1: "wellFormed ?p1" by (rule wellFormed_substKey [OF wf c(2)])
  have w2: "wellFormed ?p2" by (rule wellFormed_substKey [OF w1 c(4)])
  have w3: "wellFormed ?p3" by (rule wellFormed_substKey [OF w2 c(6)])
  have w4: "wellFormed ?p4" by (rule wellFormed_substKey [OF w3 c(8)])
  have w5: "wellFormed ?p5" by (rule wellFormed_substKey [OF w4 c(10)])
  have bf: "braceFree ''formItems''" "braceFree ''types''" "braceFree ''defaultValues''"
    "braceFree ''fields''" "braceFree ''interfaces''" "braceFree ''zodSchema''"
    by (simp_all add: braceFree_def)
  note s1 = passes_of_key [OF wf bf(1) c(1,2)]
  note s2 = passes_of_key [OF w1 bf(2) c(3,4)]
  note s3 = passes_of_key [OF w2 bf(3) c(5,6)]
  note s4 = passes_of_key [OF w3 bf(4) c(7,8)]
  note s5 = passes_of_key [OF w4 bf(5) c(9,10)]
  note s6 = passes_of_key [OF w5 bf(6) c(11,12)]
  have piece: "renderPiece
        (substKey ''zodSchema'' (zodSchema r)
          (substKey ''interfaces'' (interfaces r)
            (substKey ''fields'' (fields' r)
              (substKey ''defaultValues'' (defaultValues r)
                (substKey ''types'' (types r)
                  (substKey ''formItems'' (formItems r) q))))))
      = expandBody r q" for q
    by (cases q) simp_all
  have "replaceBodyPlaceholders (render ps) r = render ?p6"
    unfolding replaceBodyPlaceholders_def replacementEntries_def
    by (simp only: foldl.simps prod.case s1 s2 s3 s4 s5 s6)
  also have "\<dots> = concat (map (expandBody r) ps)"
    by (simp add: render_def comp_def piece del: expandBody.simps substKey.simps)
  finally show ?thesis .
qed

text \<open>
  Claim C5. In a file content in which every \<open>{{\<close> opens a token \<open>{{b}}\<close> whose body has no
  brace, and for buffers whose texts contain no \<open>$\<close> and no \<open>{{\<close> and do not end in \<open>{\<close>, every
  occurrence of each of the four spellings \<open>{{body:K}}\<close>, \<open>{{body: K}}\<close>, \<open>{{ body:K }}\<close> and
  \<open>{{ body: K }}\<close> of each of the six buffers is replaced by the full text of the buffer, and
  everything else stays; the placeholder of an empty buffer is replaced by the empty text.
\<close>

theorem body_placeholders:
  "(wellFormed ps \<longrightarrow>
      list_all (\<lambda>(key, v). dollarFree v \<and> plainText v) (replacementEntries r) \<longrightarrow>
      replaceBodyPlaceholders (render ps) r = concat (map (expandBody r) ps))
   \<and> map fst (replacementEntries r)
       = [''formItems'', ''types'', ''defaultValues'', ''fields'', ''interfaces'', ''zodSchema'']
   \<and> placeholders key = map (\<lambda>b. ''{{'' @ b @ ''}}'') (spellings key)
   \<and> replaceBodyPlaceholders ''{{body:zodSchema}}''
        \<lparr>formItems = [], types = [], defaultValues = [], fields' = [], interfaces = [],
         zodSchema = []\<rparr> = []"
proof -
  have "replaceBodyPlaceholders ''{{body:zodSchema}}''
        \<lparr>formItems = [], types = [], defaultValues = [], fields' = [], interfaces = [],
         zodSchema = []\<rparr> = []"
    by code_simp
  then show ?thesis
    using replaceBodyPlaceholders_render [of ps r]
    by (simp add: replacementEntries_def placeholders_def spellings_def)
qed

text \<open>
  A file content with two body placeholders, one of an empty buffer, and another token.
\<close>

theorem body_placeholders_witness:
  "wellFormed [Text ''<form>'', Token ''body:formItems'', Text ''</form> interface T { '',
               Token '' body: types '', Text '' } // '', Token ''body:other'']
   \<and> list_all (\<lambda>(key, v). dollarFree v \<and> plainText v)
        (replacementEntries
          \<lparr>formItems = [], types = ''a: { b: string };'', defaultValues = [], fields' = [],
           interfaces = [], zodSchema = []\<rparr>)
   \<and> replaceBodyPlaceholders
        ''<form>{{body:formItems}}</form> interface T { {{ body: types }} } // {{body:other}}''
        \<lparr>formItems = [], types = ''a: { b: string };'', defaultValues = [], fields' = [],
         interfaces = [], zodSchema = []\<rparr>
       = ''<form></form> interface T { a: { b: string }; } // {{body:other}}''"
proof -
  let ?ps = "[Text ''<form>'', Token ''body:formItems'', Text ''</form> interface T { '',
               Token '' body: types '', Text '' } // '', Token ''body:other'']"
  let ?r = "\<lparr>formItems = [], types = ''a: { b: string };'', defaultValues = [], fields' = [],
           interfaces = [], zodSchema = []\<rparr>"
  have h1: "wellFormed ?ps" by code_simp
  have h2: "list_all (\<lambda>(key, v). dollarFree v \<and> plainText v) (replacementEntries ?r)"
    by code_simp
  have r: "render ?ps
      = ''<form>{{body:formItems}}</form> interface T { {{ body: types }} } // {{body:other}}''"
    by code_simp
  have e: "concat (map (expandBody ?r) ?ps)
      = ''<form></form> interface T { a: { b: string }; } // {{body:other}}''"
    by code_simp
  from body_placeholders [THEN conjunct1, rule_format, OF h1 h2]
  show ?thesis using h1 h2 unfolding r e by simp
qed

text \<open>
  A buffer text that contains the placeholder of a later buffer is scanned again, and so is a
  placeholder that an inserted text completes; a buffer text that contains \<open>$$\<close> is inserted
  with one \<open>$\<close>.
\<close>

theorem body_text_rescanned_counterexample:
  "replaceBodyPlaceholders ''{{body:formItems}}''
     \<lparr>formItems = ''<p>{{body:types}}</p>'', types = ''T'', defaultValues = [], fields' = [],
      interfaces = [], zodSchema = []\<rparr>
     = ''<p>T</p>''
   \<and> replaceBodyPlaceholders ''{{body:{{body:formItems}}}}''
     \<lparr>formItems = ''types'', types = ''T'', defaultValues = [], fields' = [],
      interfaces = [], zodSchema = []\<rparr>
     = ''T''
   \<and> replaceBodyPlaceholders ''{{body:types}}''
     \<lparr>formItems = [], types = ''  cost$$: string;'', defaultValues = [], fields' = [],
      interfaces = [], zodSchema = []\<rparr>
     = ''  cost$: string;''"
  by code_simp

end
